theory Spec2Isabelle
  imports
    Complex_Main
    "HOL-Library.Word"
    "HOL-Library.AList"
    "HOL-Library.Char_ord"
    "HOL-Library.List_Lexorder"
    "HOL-Library.Sublist"
    "HOL-Library.Multiset"
begin

section \<open>Anvil consensus node: data model\<close>

text \<open>
  The development follows the consensus node (\<^verbatim>\<open>consensus-node.cjs\<close>). JavaScript
  \<^verbatim>\<open>Map\<close> objects are association lists in insertion order (\<open>map_of\<close> reads a key,
  \<open>AList.update\<close> is \<^verbatim>\<open>Map.set\<close>: it replaces the value in place or appends the key),
  a \<^verbatim>\<open>Set\<close> is a duplicate-free list, epochs and views are natural numbers.
  Amounts, balances and nonces are JavaScript numbers, that is IEEE 754 double-precision
  values: they are modelled by the real number they denote, and every \<^verbatim>\<open>+\<close>,
  \<^verbatim>\<open>-\<close> and \<^verbatim>\<open>*\<close> of the ledger, the transaction filter and the quorum is the
  exact result rounded to the nearest double, ties to even (\<open>roundDouble\<close>). Only
  finite numbers are represented: \<^verbatim>\<open>NaN\<close>, the infinities (also as the result of an
  overflow) and fields that hold no number are outside the model. The effectiveness
  formulas (\<^verbatim>\<open>Math.exp\<close>) are computed on real numbers. The
  cryptographic primitives of the platform (SHA-256, Ed25519, JSON serialisation, the
  key parser) are parameters collected in the record \<open>env\<close> together with the
  identity of the node.
\<close>

type_synonym address = string

record account =
  balance :: real
  nonce :: real

record transaction =
  tx_from :: address
  tx_to :: address
  amount :: real
  tx_nonce :: real
  tx_timestamp :: int
  tx_signature :: string

text \<open>A receipt arrives as JSON: any of its fields may be missing (\<open>None\<close>).\<close>

record receipt =
  challengeId :: "string option"
  r_from :: "string option"
  r_to :: "string option"
  r_success :: bool
  r_signature :: "string option"

text \<open>
  \<open>blockData\<close> holds the fields that are hashed; \<open>block\<close> adds the three fields
  \<^verbatim>\<open>hash\<close>, \<^verbatim>\<open>leaderSignature\<close> and \<^verbatim>\<open>votes\<close> that
  \<^verbatim>\<open>{ ...block, hash: undefined, leaderSignature: undefined, votes: undefined }\<close> removes.
\<close>

record blockData =
  epoch :: nat
  previousHash :: string
  leader :: string
  leaderPubKey :: string
  timestamp :: int
  txRoot :: string
  receiptRoot :: string
  stateRoot :: string
  receipts :: "receipt list"
  transactions :: "transaction list"
  effectivenessUpdates :: "(address \<times> real) list"
  rewards :: "(address \<times> real) list"

record block = blockData +
  bhash :: string
  leaderSignature :: string
  votes :: "(string \<times> string) list"

record peer =
  p_url :: string
  p_publicKeyHash :: "string option"
  p_effectiveness :: real

record evidence =
  ev_block1 :: block
  ev_block2 :: block
  ev_leader :: string
  ev_epoch :: nat

record vote =
  v_epoch :: nat
  v_blockHash :: string
  v_voter :: string
  v_voterPubKey :: string
  v_signature :: string

record viewChange =
  vc_epoch :: nat
  vc_oldView :: nat
  vc_newView :: nat
  vc_from :: string
  vc_signature :: "string option"

record env =
  NODE_NAME :: string
  publicKeyPem :: string
  publicKeyHash :: address
  sha256 :: "string \<Rightarrow> 8 word list"
  parseKey :: "string \<Rightarrow> string option"
  edVerify :: "string \<Rightarrow> string \<Rightarrow> string \<Rightarrow> bool"
  signRaw :: "string \<Rightarrow> string"
  jsonTx :: "transaction \<Rightarrow> string"
  jsonReceipt :: "receipt \<Rightarrow> string"
  jsonBlockData :: "blockData \<Rightarrow> string"
  jsonEpochView :: "nat \<Rightarrow> nat \<Rightarrow> string"
  showNum :: "real \<Rightarrow> string"

record state =
  peers :: "(string \<times> peer) list"
  chain :: "block list"
  pendingReceipts :: "receipt list"
  pendingTransactions :: "transaction list"
  accounts :: "(address \<times> account) list"
  currentEpoch :: nat
  currentView :: nat
  proposedBlock :: "block option"
  st_votes :: "(string \<times> string) list"
  viewChangeVotes :: "(string \<times> string list) list"
  seenProposals :: "(nat \<times> (string \<times> block) list) list"
  slashedNodes :: "address list"
  effectiveness :: real
  blocksCommitted :: nat
  viewChanges :: nat
  slashEvents :: nat

section \<open>Double-precision arithmetic\<close>

text \<open>
  A double has 53 significant bits and an exponent of at least \<open>- 1074\<close> for its last
  bit. \<open>binade x\<close> is the exponent of the leading bit of \<open>x\<close>, \<open>ulp x\<close> the weight
  of the last bit of the doubles of that magnitude, and \<open>roundDouble x\<close> the multiple
  of \<open>ulp x\<close> nearest to \<open>x\<close>, the even one of two equally near.
\<close>

definition pow2 :: "int \<Rightarrow> real" where
  "pow2 z = (if 0 \<le> z then 2 ^ nat z else 1 / 2 ^ nat (- z))"

definition binade :: "real \<Rightarrow> int" where
  "binade x = \<lfloor>log 2 \<bar>x\<bar>\<rfloor>"

definition ulp :: "real \<Rightarrow> real" where
  "ulp x = pow2 (max (binade x - 52) (- 1074))"

definition roundHalfEven :: "real \<Rightarrow> int" where
  "roundHalfEven z =
     (let f = \<lfloor>z\<rfloor>; r = z - of_int f
      in if r < 1 / 2 then f
         else if 1 / 2 < r then f + 1
         else if even f then f else f + 1)"

definition roundDouble :: "real \<Rightarrow> real" where
  "roundDouble x = (if x = 0 then 0 else of_int (roundHalfEven (x / ulp x)) * ulp x)"

text \<open>The operators \<^verbatim>\<open>+\<close>, \<^verbatim>\<open>-\<close> and \<^verbatim>\<open>*\<close> on two numbers.\<close>

definition dadd :: "real \<Rightarrow> real \<Rightarrow> real" where
  "dadd x y = roundDouble (x + y)"

definition dsub :: "real \<Rightarrow> real \<Rightarrow> real" where
  "dsub x y = roundDouble (x - y)"

definition dmul :: "real \<Rightarrow> real \<Rightarrow> real" where
  "dmul x y = roundDouble (x * y)"

section \<open>Crypto functions\<close>

definition hexDigit :: "nat \<Rightarrow> char" where
  "hexDigit n = ''0123456789abcdef'' ! n"

definition hexByte :: "8 word \<Rightarrow> string" where
  "hexByte b = [hexDigit (unat b div 16), hexDigit (unat b mod 16)]"

text \<open>\<^verbatim>\<open>.digest('hex')\<close>: two lowercase hexadecimal digits for every byte.\<close>

definition digestHex :: "8 word list \<Rightarrow> string" where
  "digestHex bs = concat (map hexByte bs)"

text \<open>\<^verbatim>\<open>hash(data)\<close> on a string: the SHA-256 digest in hexadecimal.\<close>

definition hash :: "env \<Rightarrow> string \<Rightarrow> string" where
  "hash env s = digestHex (sha256 env s)"

text \<open>\<^verbatim>\<open>hash(obj)\<close> on an object hashes \<^verbatim>\<open>JSON.stringify(obj)\<close>.\<close>

definition hashTx :: "env \<Rightarrow> transaction \<Rightarrow> string" where
  "hashTx env tx = hash env (jsonTx env tx)"

definition hashReceipt :: "env \<Rightarrow> receipt \<Rightarrow> string" where
  "hashReceipt env r = hash env (jsonReceipt env r)"

definition hashBlockData :: "env \<Rightarrow> blockData \<Rightarrow> string" where
  "hashBlockData env d = hash env (jsonBlockData env d)"

text \<open>
  \<^verbatim>\<open>verify(data, signature, peerPublicKeyPem)\<close>: \<^verbatim>\<open>false\<close> when the key does not
  parse (the \<^verbatim>\<open>catch\<close>), the Ed25519 check otherwise.
\<close>

definition verify :: "env \<Rightarrow> string \<Rightarrow> string \<Rightarrow> string \<Rightarrow> bool" where
  "verify env msg sig pem =
     (case parseKey env pem of
        None \<Rightarrow> False
      | Some k \<Rightarrow> edVerify env k msg sig)"

definition sign :: "env \<Rightarrow> string \<Rightarrow> string" where
  "sign env msg = signRaw env msg"

text \<open>
  The address of a public key, as \<^verbatim>\<open>slashNode\<close> derives it: the first 40
  hexadecimal digits of the SHA-256 of the key's DER encoding; \<open>None\<close> when
  \<^verbatim>\<open>crypto.createPublicKey\<close> throws.
\<close>

definition addressOfKey :: "env \<Rightarrow> string \<Rightarrow> address option" where
  "addressOfKey env pem =
     (case parseKey env pem of
        None \<Rightarrow> None
      | Some k \<Rightarrow> Some (take 40 (hash env k)))"

section \<open>Number formatting and parsing\<close>

text \<open>
  The decimal digits a template literal prints for a natural number (\<open>hexDigit\<close> of a
  number below 10 is its decimal digit).
\<close>

function showNat :: "nat \<Rightarrow> string" where
  "showNat n =
     (if n < 10 then [hexDigit n]
      else showNat (n div 10) @ [hexDigit (n mod 10)])"
  by pat_completeness auto
termination
  by (relation "measure (\<lambda>n. n)") auto

declare showNat.simps [simp del]

definition hexVal :: "char \<Rightarrow> nat option" where
  "hexVal c =
     (let n = (of_char c :: nat) in
      if 48 \<le> n \<and> n \<le> 57 then Some (n - 48)
      else if 97 \<le> n \<and> n \<le> 102 then Some (n - 87)
      else if 65 \<le> n \<and> n \<le> 70 then Some (n - 55)
      else None)"

definition isHex :: "char \<Rightarrow> bool" where
  "isHex c = (hexVal c \<noteq> None)"

definition hexStep :: "nat \<Rightarrow> char \<Rightarrow> nat" where
  "hexStep acc c = acc * 16 + (case hexVal c of Some d \<Rightarrow> d | None \<Rightarrow> 0)"

text \<open>
  \<^verbatim>\<open>parseInt(s, 16)\<close> on a string that starts with neither white space, a sign nor
  \<^verbatim>\<open>0x\<close> (a slice of a hexadecimal digest has none of them): the value of the
  longest prefix of hexadecimal digits, \<open>None\<close> (\<^verbatim>\<open>NaN\<close>) when there is none.
\<close>

definition parseInt16 :: "string \<Rightarrow> nat option" where
  "parseInt16 s =
     (let ds = takeWhile isHex s in
      if ds = [] then None else Some (foldl hexStep 0 ds))"

text \<open>Bytes read as one unsigned number, most significant byte first.\<close>

definition beUint :: "8 word list \<Rightarrow> nat" where
  "beUint bs = foldl (\<lambda>a b. a * 256 + unat b) 0 bs"

section \<open>Merkle tree\<close>

text \<open>
  One pass of the loop \<^verbatim>\<open>for (i = 0; i < hashes.length; i += 2)\<close>. The right
  child is \<^verbatim>\<open>hashes[i + 1] || left\<close>: the left child again when the index is out
  of range, and also when the element is the empty string, which is falsy.
\<close>

fun nextLevel :: "env \<Rightarrow> string list \<Rightarrow> string list" where
  "nextLevel env [] = []"
| "nextLevel env [l] = [hash env (l @ l)]"
| "nextLevel env (l # r # rest) =
     hash env (l @ (if r = [] then l else r)) # nextLevel env rest"

lemma length_nextLevel: "length (nextLevel env hs) = (length hs + 1) div 2"
  by (induction env hs rule: nextLevel.induct) simp_all

function calculateMerkleRoot :: "env \<Rightarrow> string list \<Rightarrow> string" where
  "calculateMerkleRoot env [] = replicate 64 CHR ''0''"
| "calculateMerkleRoot env [h] = h"
| "calculateMerkleRoot env (a # b # rest) =
     calculateMerkleRoot env (nextLevel env (a # b # rest))"
  by pat_completeness auto
termination
  by (relation "measure (\<lambda>(env, hs). length hs)") (auto simp: length_nextLevel)

text \<open>
  The reference definition, following the specification's words: pair adjacent nodes,
  duplicate the last hash of a level of odd length, parent = H(left || right), repeat
  until one root remains; the empty sequence has the all-zero root and a single leaf is
  its own root.
\<close>

fun pairAdjacent :: "(string \<Rightarrow> string) \<Rightarrow> string list \<Rightarrow> string list" where
  "pairAdjacent H (l # r # rest) = H (l @ r) # pairAdjacent H rest"
| "pairAdjacent H _ = []"

definition duplicateLastIfOdd :: "string list \<Rightarrow> string list" where
  "duplicateLastIfOdd xs = (if odd (length xs) then xs @ [last xs] else xs)"

lemma length_pairAdjacent: "length (pairAdjacent H xs) = length xs div 2"
  by (induction H xs rule: pairAdjacent.induct) simp_all

function merkleRootSpec :: "(string \<Rightarrow> string) \<Rightarrow> string list \<Rightarrow> string" where
  "merkleRootSpec H [] = replicate 64 CHR ''0''"
| "merkleRootSpec H [x] = x"
| "merkleRootSpec H (a # b # rest) =
     merkleRootSpec H (pairAdjacent H (duplicateLastIfOdd (a # b # rest)))"
  by pat_completeness auto
termination
proof (relation "measure (\<lambda>(H, xs). length xs)")
  fix H :: "string \<Rightarrow> string" and a b :: string and rest :: "string list"
  have "length (duplicateLastIfOdd (a # b # rest)) div 2 < length (a # b # rest)"
    by (simp add: duplicateLastIfOdd_def) presburger
  then show "((H, pairAdjacent H (duplicateLastIfOdd (a # b # rest))), (H, a # b # rest))
      \<in> measure (\<lambda>(H, xs). length xs)"
    by (simp add: length_pairAdjacent)
qed simp

section \<open>Ledger\<close>

definition emptyAccount :: account where
  "emptyAccount = \<lparr>balance = 0, nonce = 0\<rparr>"

text \<open>\<^verbatim>\<open>state.accounts.get(a) || { balance: 0, nonce: 0 }\<close>\<close>

definition getAccount :: "(address \<times> account) list \<Rightarrow> address \<Rightarrow> account" where
  "getAccount accts a = (case map_of accts a of Some acc \<Rightarrow> acc | None \<Rightarrow> emptyAccount)"

text \<open>
  \<^verbatim>\<open>applyTransaction(tx)\<close>. The two lookups return the same object when sender and
  recipient are one address that already has an account: then the debit and the credit
  hit one balance. Otherwise they are two objects, stored under \<^verbatim>\<open>tx.from\<close> first
  and under \<^verbatim>\<open>tx.to\<close> second.
\<close>

definition applyTransaction ::
  "(address \<times> account) list \<Rightarrow> transaction \<Rightarrow> (address \<times> account) list" where
  "applyTransaction accts tx =
     (let fromAccount = getAccount accts (tx_from tx);
          toAccount = getAccount accts (tx_to tx)
      in if tx_to tx = tx_from tx \<and> map_of accts (tx_from tx) \<noteq> None
         then AList.update (tx_from tx)
                \<lparr>balance = dadd (dsub (balance fromAccount) (amount tx)) (amount tx),
                 nonce = tx_nonce tx\<rparr>
                accts
         else AList.update (tx_to tx)
                (toAccount\<lparr>balance := dadd (balance toAccount) (amount tx)\<rparr>)
                (AList.update (tx_from tx)
                   \<lparr>balance = dsub (balance fromAccount) (amount tx), nonce = tx_nonce tx\<rparr>
                   accts))"

text \<open>One turn of the rewards loop: create the account when missing, then credit it.\<close>

definition applyReward ::
  "(address \<times> account) list \<Rightarrow> address \<times> real \<Rightarrow> (address \<times> account) list" where
  "applyReward accts ar =
     (let addr = fst ar; reward = snd ar;
          accts1 = (if map_of accts addr = None
                    then AList.update addr emptyAccount accts else accts);
          acc = getAccount accts1 addr
      in AList.update addr (acc\<lparr>balance := dadd (balance acc) reward\<rparr>) accts1)"

text \<open>One turn of the effectiveness loop of \<^verbatim>\<open>commitBlock\<close>.\<close>

definition applyEffectiveness :: "env \<Rightarrow> state \<Rightarrow> address \<times> real \<Rightarrow> state" where
  "applyEffectiveness env st ae =
     st\<lparr>effectiveness := (if fst ae = publicKeyHash env then snd ae else effectiveness st),
        peers := map (\<lambda>(peerId, p).
                   if p_publicKeyHash p = Some (fst ae)
                   then (peerId, p\<lparr>p_effectiveness := snd ae\<rparr>) else (peerId, p))
                 (peers st)\<rparr>"

definition commitBlock :: "env \<Rightarrow> state \<Rightarrow> block \<Rightarrow> state" where
  "commitBlock env st b =
     (let st1 = st\<lparr>chain := chain st @ [b]\<rparr>;
          st2 = foldl (applyEffectiveness env) st1 (effectivenessUpdates b);
          accts1 = foldl applyReward (accounts st2) (rewards b);
          accts2 = foldl applyTransaction accts1 (transactions b);
          includedReceiptIds = map challengeId (receipts b);
          includedTxHashes = map (hashTx env) (transactions b)
      in st2\<lparr>accounts := accts2,
             pendingReceipts :=
               filter (\<lambda>r. challengeId r \<notin> set includedReceiptIds) (pendingReceipts st2),
             pendingTransactions :=
               filter (\<lambda>t. hashTx env t \<notin> set includedTxHashes) (pendingTransactions st2),
             blocksCommitted := blocksCommitted st2 + 1\<rparr>)"

text \<open>
  The transaction loop of \<^verbatim>\<open>rebuildStateFromChain\<close>: a coinbase transaction only
  credits the recipient; any other is debited and credited as in
  \<^verbatim>\<open>applyTransaction\<close> (the same statements, written out again in the source).
\<close>

definition replayTransaction ::
  "(address \<times> account) list \<Rightarrow> transaction \<Rightarrow> (address \<times> account) list" where
  "replayTransaction accts tx =
     (if tx_from tx = ''coinbase''
      then (let toAccount = getAccount accts (tx_to tx)
            in AList.update (tx_to tx)
                 (toAccount\<lparr>balance := dadd (balance toAccount) (amount tx)\<rparr>) accts)
      else (let fromAccount = getAccount accts (tx_from tx);
                toAccount = getAccount accts (tx_to tx)
            in if tx_to tx = tx_from tx \<and> map_of accts (tx_from tx) \<noteq> None
               then AList.update (tx_from tx)
                      \<lparr>balance = dadd (dsub (balance fromAccount) (amount tx)) (amount tx),
                       nonce = tx_nonce tx\<rparr>
                      accts
               else AList.update (tx_to tx)
                      (toAccount\<lparr>balance := dadd (balance toAccount) (amount tx)\<rparr>)
                      (AList.update (tx_from tx)
                         \<lparr>balance = dsub (balance fromAccount) (amount tx),
                          nonce = tx_nonce tx\<rparr>
                         accts)))"

definition replayBlock ::
  "(address \<times> account) list \<Rightarrow> block \<Rightarrow> (address \<times> account) list" where
  "replayBlock accts b =
     foldl replayTransaction (foldl applyReward accts (rewards b)) (transactions b)"

definition replayEffectiveness :: "env \<Rightarrow> real \<Rightarrow> block \<Rightarrow> real" where
  "replayEffectiveness env e b =
     foldl (\<lambda>e' ne. if fst ne = NODE_NAME env then snd ne else e') e (effectivenessUpdates b)"

definition rebuildStateFromChain :: "env \<Rightarrow> state \<Rightarrow> state" where
  "rebuildStateFromChain env st =
     st\<lparr>accounts := foldl replayBlock [] (chain st),
        effectiveness := foldl (replayEffectiveness env) (effectiveness st) (chain st)\<rparr>"

text \<open>\<^verbatim>\<open>validateTransaction(tx)\<close>: funds and nonce against the committed accounts.\<close>

definition validateTransaction :: "state \<Rightarrow> transaction \<Rightarrow> bool" where
  "validateTransaction st tx =
     (let account = getAccount (accounts st) (tx_from tx)
      in if balance account < amount tx then False
         else if tx_nonce tx \<noteq> dadd (nonce account) 1 then False
         else True)"

section \<open>Leader election and quorum\<close>

text \<open>
  \<^verbatim>\<open>electLeader(epoch)\<close>. The result is \<open>None\<close> where the source indexes the array
  with \<^verbatim>\<open>NaN\<close> and returns \<^verbatim>\<open>undefined\<close>.
\<close>

definition allNodes :: "env \<Rightarrow> state \<Rightarrow> string list" where
  "allNodes env st = sort (NODE_NAME env # map fst (peers st))"

text \<open>The template literal \<^verbatim>\<open>`epoch-${epoch}-view-${state.currentView}`\<close>.\<close>

definition leaderMessage :: "nat \<Rightarrow> nat \<Rightarrow> string" where
  "leaderMessage ep view = ''epoch-'' @ showNat ep @ ''-view-'' @ showNat view"

definition electLeader :: "env \<Rightarrow> state \<Rightarrow> nat \<Rightarrow> string option" where
  "electLeader env st ep =
     (if length (allNodes env st) = 0 then Some (NODE_NAME env)
      else let epochHash = hash env (leaderMessage ep (currentView st))
           in case parseInt16 (take 8 epochHash) of
                None \<Rightarrow> None
              | Some v \<Rightarrow> Some (allNodes env st ! (v mod length (allNodes env st))))"

text \<open>
  The value of a string of decimal digits, to read back what \<open>showNat\<close> prints.
\<close>

definition decimalValue :: "string \<Rightarrow> nat" where
  "decimalValue s = foldl (\<lambda>a c. 10 * a + (of_char c - 48)) 0 s"

text \<open>
  \<^verbatim>\<open>Math.ceil(totalNodes * CONFIG.quorumFraction)\<close> with
  \<^verbatim>\<open>totalNodes = state.peers.size + 1\<close> and \<^verbatim>\<open>quorumFraction: 0.67\<close>: the
  literal is the double nearest to 67/100 and the product is rounded before the ceiling
  is taken.
\<close>

definition quorumFraction :: real where
  "quorumFraction = roundDouble (67 / 100)"

definition votesNeeded :: "state \<Rightarrow> nat" where
  "votesNeeded st = nat \<lceil>dmul (real (length (peers st) + 1)) quorumFraction\<rceil>"

section \<open>Block validation\<close>

text \<open>The block without \<^verbatim>\<open>hash\<close>, \<^verbatim>\<open>leaderSignature\<close> and \<^verbatim>\<open>votes\<close>.\<close>

definition blockDataOf :: "block \<Rightarrow> blockData" where
  "blockDataOf b =
     \<lparr>epoch = epoch b, previousHash = previousHash b, leader = leader b,
      leaderPubKey = leaderPubKey b, timestamp = timestamp b, txRoot = txRoot b,
      receiptRoot = receiptRoot b, stateRoot = stateRoot b, receipts = receipts b,
      transactions = transactions b, effectivenessUpdates = effectivenessUpdates b,
      rewards = rewards b\<rparr>"

definition zeroHash :: string where
  "zeroHash = replicate 64 CHR ''0''"

definition lastHash :: "state \<Rightarrow> string" where
  "lastHash st = (if length (chain st) > 0 then bhash (last (chain st)) else zeroHash)"

fun allTransactionsValid :: "state \<Rightarrow> transaction list \<Rightarrow> bool" where
  "allTransactionsValid st [] = True"
| "allTransactionsValid st (tx # txs) =
     (if \<not> validateTransaction st tx then False else allTransactionsValid st txs)"

definition validateBlock :: "env \<Rightarrow> state \<Rightarrow> block \<Rightarrow> bool" where
  "validateBlock env st b =
     (if previousHash b \<noteq> lastHash st then False
      else if Some (leader b) \<noteq> electLeader env st (epoch b) then False
      else if bhash b \<noteq> hashBlockData env (blockDataOf b) then False
      else if \<not> verify env (bhash b) (leaderSignature b) (leaderPubKey b) then False
      else allTransactionsValid st (transactions b))"

section \<open>Equivocation and slashing\<close>

definition conflicts :: "block \<Rightarrow> string \<times> block \<Rightarrow> bool" where
  "conflicts b hb = (leader (snd hb) = leader b \<and> fst hb \<noteq> bhash b)"

definition checkEquivocation :: "state \<Rightarrow> block \<Rightarrow> evidence option \<times> state" where
  "checkEquivocation st b =
     (let epochKey = epoch b;
          seen1 = (if map_of (seenProposals st) epochKey = None
                   then AList.update epochKey [] (seenProposals st)
                   else seenProposals st);
          epochProposals = (case map_of seen1 epochKey of Some ps \<Rightarrow> ps | None \<Rightarrow> [])
      in case find (conflicts b) epochProposals of
           Some hb \<Rightarrow>
             (Some \<lparr>ev_block1 = snd hb, ev_block2 = b, ev_leader = leader b,
                    ev_epoch = epochKey\<rparr>,
              st\<lparr>seenProposals := seen1\<rparr>)
         | None \<Rightarrow>
             (let seen2 = AList.update epochKey
                            (AList.update (bhash b) b epochProposals) seen1;
                  seen3 = (if length seen2 > 10
                           then AList.delete (Min (set (map fst seen2))) seen2
                           else seen2)
              in (None, st\<lparr>seenProposals := seen3\<rparr>)))"

text \<open>
  The block is in the equivocation ledger: \<^verbatim>\<open>state.seenProposals\<close> has a map for
  its epoch, and that map has the block under its hash.
\<close>

definition held :: "state \<Rightarrow> block \<Rightarrow> bool" where
  "held st b =
     (case map_of (seenProposals st) (epoch b) of
        None \<Rightarrow> False
      | Some ps \<Rightarrow> map_of ps (bhash b) = Some b)"

definition slashAmountConfig :: real where
  "slashAmountConfig = 500"

definition slashNode :: "env \<Rightarrow> state \<Rightarrow> string \<Rightarrow> state" where
  "slashNode env st pem =
     (case addressOfKey env pem of
        None \<Rightarrow> st
      | Some addr \<Rightarrow>
          if addr \<in> set (slashedNodes st) then st
          else (let st1 = st\<lparr>slashedNodes := slashedNodes st @ [addr],
                             slashEvents := slashEvents st + 1\<rparr>
                in case map_of (accounts st1) addr of
                     None \<Rightarrow> st1
                   | Some account \<Rightarrow>
                       (let slashAmount = min (balance account) slashAmountConfig
                        in st1\<lparr>accounts :=
                                 AList.update addr
                                   (account\<lparr>balance := dsub (balance account) slashAmount\<rparr>)
                                   (accounts st1)\<rparr>)))"

text \<open>A missing field and the empty string are both falsy.\<close>

definition falsy :: "string option \<Rightarrow> bool" where
  "falsy x = (case x of None \<Rightarrow> True | Some s \<Rightarrow> s = [])"

text \<open>\<^verbatim>\<open>verifyBlockReceipts\<close>: the reason of the first failing receipt, \<open>None\<close> when valid.\<close>

fun verifyBlockReceipts :: "receipt list \<Rightarrow> string option" where
  "verifyBlockReceipts [] = None"
| "verifyBlockReceipts (r # rs) =
     (if falsy (r_signature r) then Some ''Receipt missing signature''
      else if falsy (challengeId r) then Some ''Receipt missing required fields''
      else if falsy (r_from r) then Some ''Receipt missing required fields''
      else if falsy (r_to r) then Some ''Receipt missing required fields''
      else verifyBlockReceipts rs)"

section \<open>Consensus handlers\<close>

datatype response = Rejected string "evidence option" | Voted vote

definition handleBlockProposal :: "env \<Rightarrow> state \<Rightarrow> block \<Rightarrow> response \<times> state" where
  "handleBlockProposal env st b =
     (case checkEquivocation st b of
        (Some ev, st1) \<Rightarrow>
          (Rejected ''Equivocation detected'' (Some ev), slashNode env st1 (leaderPubKey b))
      | (None, st1) \<Rightarrow>
          (case verifyBlockReceipts (receipts b) of
             Some reason \<Rightarrow> (Rejected reason None, st1)
           | None \<Rightarrow>
               if previousHash b \<noteq> lastHash st1
                  \<and> bhash b \<noteq> hashBlockData env (blockDataOf b)
               then (Rejected ''Hash mismatch'' None, st1)
               else if previousHash b \<noteq> lastHash st1
                  \<and> \<not> verify env (bhash b) (leaderSignature b) (leaderPubKey b)
               then (Rejected ''Invalid signature'' None, st1)
               else (Voted \<lparr>v_epoch = epoch b, v_blockHash = bhash b,
                             v_voter = NODE_NAME env, v_voterPubKey = publicKeyPem env,
                             v_signature = sign env (bhash b)\<rparr>,
                     st1\<lparr>proposedBlock := Some b\<rparr>)))"

definition handleVote :: "env \<Rightarrow> state \<Rightarrow> vote \<Rightarrow> state" where
  "handleVote env st v =
     (if \<not> verify env (v_blockHash v) (v_signature v) (v_voterPubKey v) then st
      else case proposedBlock st of
             None \<Rightarrow> st
           | Some pb \<Rightarrow>
               if bhash pb \<noteq> v_blockHash v then st
               else (let st1 = st\<lparr>st_votes :=
                                    AList.update (v_voter v) (v_signature v) (st_votes st)\<rparr>
                     in if length (st_votes st1) \<ge> votesNeeded st1
                        then (commitBlock env st1 (pb\<lparr>votes := st_votes st1\<rparr>))
                               \<lparr>proposedBlock := None, st_votes := []\<rparr>
                        else st1))"

text \<open>
  \<^verbatim>\<open>handleCommittedBlock(block)\<close>. \<^verbatim>\<open>Object.keys(block.votes || {}).length\<close> is the
  number of entries of the votes object.
\<close>

definition handleCommittedBlock :: "env \<Rightarrow> state \<Rightarrow> block \<Rightarrow> state" where
  "handleCommittedBlock env st b =
     (if list_ex (\<lambda>b'. bhash b' = bhash b) (chain st) then st
      else if length (votes b) < 2 then st
      else if bhash b \<noteq> hashBlockData env (blockDataOf b) then st
      else if \<not> verify env (bhash b) (leaderSignature b) (leaderPubKey b) then st
      else commitBlock env st b)"

text \<open>\<^verbatim>\<open>Set.add\<close>: a new element goes to the end, a known one changes nothing.\<close>

definition setAdd :: "'a \<Rightarrow> 'a list \<Rightarrow> 'a list" where
  "setAdd x xs = (if x \<in> set xs then xs else xs @ [x])"

text \<open>The key \<^verbatim>\<open>`${viewChange.epoch}-${viewChange.newView}`\<close> of the tally.\<close>

definition viewChangeKey :: "viewChange \<Rightarrow> string" where
  "viewChangeKey vc = showNat (vc_epoch vc) @ ''-'' @ showNat (vc_newView vc)"

text \<open>The set stored under a key of \<^verbatim>\<open>state.viewChangeVotes\<close>, empty when absent.\<close>

definition votersOf :: "(string \<times> string list) list \<Rightarrow> string \<Rightarrow> string list" where
  "votersOf vcv key = (case map_of vcv key of Some vs \<Rightarrow> vs | None \<Rightarrow> [])"

definition handleViewChange :: "env \<Rightarrow> state \<Rightarrow> viewChange \<Rightarrow> state" where
  "handleViewChange env st vc =
     (if vc_epoch vc \<noteq> currentEpoch st then st
      else if vc_newView vc \<le> currentView st then st
      else (let key = viewChangeKey vc;
                vcv1 = (if map_of (viewChangeVotes st) key = None
                        then AList.update key [] (viewChangeVotes st)
                        else viewChangeVotes st);
                voters = setAdd (vc_from vc) (votersOf vcv1 key);
                st1 = st\<lparr>viewChangeVotes := AList.update key voters vcv1\<rparr>
            in if length voters \<ge> votesNeeded st1
               then st1\<lparr>currentView := vc_newView vc, proposedBlock := None,
                        st_votes := [], viewChanges := viewChanges st1 + 1\<rparr>
               else st1))"

text \<open>
  \<^verbatim>\<open>checkViewChange()\<close>; \<open>timedOut\<close> stands for
  \<^verbatim>\<open>Date.now() - state.epochStartTime > CONFIG.viewChangeTimeoutMs\<close>. The second
  component is the message it broadcasts.
\<close>

definition checkViewChange :: "env \<Rightarrow> state \<Rightarrow> bool \<Rightarrow> state \<times> viewChange option" where
  "checkViewChange env st timedOut =
     (if proposedBlock st = None \<and> timedOut
      then (let oldView = currentView st;
                st1 = st\<lparr>currentView := currentView st + 1, viewChangeVotes := [],
                         viewChanges := viewChanges st + 1\<rparr>
            in (st1,
                Some \<lparr>vc_epoch = currentEpoch st1, vc_oldView = oldView,
                      vc_newView = currentView st1, vc_from = NODE_NAME env,
                      vc_signature =
                        Some (sign env (jsonEpochView env (currentEpoch st1) (currentView st1)))\<rparr>))
      else (st, None))"

section \<open>Block builder\<close>

text \<open>
  The overlays of \<^verbatim>\<open>createBlock\<close>: \<^verbatim>\<open>tempBalances\<close> and \<^verbatim>\<open>tempNonces\<close>
  hold the addresses touched so far; an untouched address reads the ledger account, a
  missing account reads 0.
\<close>

definition overlayBalance ::
  "(address \<times> account) list \<Rightarrow> (address \<times> real) list \<Rightarrow> address \<Rightarrow> real" where
  "overlayBalance accts tempBalances a =
     (case map_of tempBalances a of
        Some x \<Rightarrow> x
      | None \<Rightarrow> balance (getAccount accts a))"

definition overlayNonce ::
  "(address \<times> account) list \<Rightarrow> (address \<times> real) list \<Rightarrow> address \<Rightarrow> real" where
  "overlayNonce accts tempNonces a =
     (case map_of tempNonces a of
        Some n \<Rightarrow> n
      | None \<Rightarrow> nonce (getAccount accts a))"

type_synonym filterState =
  "transaction list \<times> (address \<times> real) list \<times> (address \<times> real) list"

text \<open>One turn of the filter loop of \<^verbatim>\<open>createBlock\<close>.\<close>

definition filterStep ::
  "(address \<times> account) list \<Rightarrow> filterState \<Rightarrow> transaction \<Rightarrow> filterState" where
  "filterStep accts fs tx =
     (case fs of (validTxs, tempBalances, tempNonces) \<Rightarrow>
        if tx_from tx = ''coinbase''
        then (let toBalance = overlayBalance accts tempBalances (tx_to tx)
              in (validTxs @ [tx],
                  AList.update (tx_to tx) (dadd toBalance (amount tx)) tempBalances,
                  tempNonces))
        else (let currentBalance = overlayBalance accts tempBalances (tx_from tx);
                  currentNonce = overlayNonce accts tempNonces (tx_from tx)
              in if currentBalance < amount tx then (validTxs, tempBalances, tempNonces)
                 else if tx_nonce tx \<noteq> dadd currentNonce 1
                 then (validTxs, tempBalances, tempNonces)
                 else (let tempBalances1 =
                             AList.update (tx_from tx) (dsub currentBalance (amount tx))
                               tempBalances;
                           tempNonces1 = AList.update (tx_from tx) (tx_nonce tx) tempNonces;
                           toBalance = overlayBalance accts tempBalances1 (tx_to tx)
                       in (validTxs @ [tx],
                           AList.update (tx_to tx) (dadd toBalance (amount tx)) tempBalances1,
                           tempNonces1))))"

definition filterTransactions ::
  "(address \<times> account) list \<Rightarrow> transaction list \<Rightarrow> filterState" where
  "filterTransactions accts txs = foldl (filterStep accts) ([], [], []) txs"

text \<open>
  The two checks of the loop body as one condition: \<^verbatim>\<open>currentBalance < tx.amount\<close>
  or \<^verbatim>\<open>tx.nonce !== currentNonce + 1\<close>.
\<close>

definition rejects ::
  "(address \<times> account) list \<Rightarrow> (address \<times> real) list \<Rightarrow> (address \<times> real) list
     \<Rightarrow> transaction \<Rightarrow> bool" where
  "rejects accts tb tn tx =
     (overlayBalance accts tb (tx_from tx) < amount tx
      \<or> tx_nonce tx \<noteq> dadd (overlayNonce accts tn (tx_from tx)) 1)"

text \<open>The components of the filter state.\<close>

definition validTxsOf :: "filterState \<Rightarrow> transaction list" where
  "validTxsOf fs = fst fs"

definition balancesOf :: "filterState \<Rightarrow> (address \<times> real) list" where
  "balancesOf fs = fst (snd fs)"

definition noncesOf :: "filterState \<Rightarrow> (address \<times> real) list" where
  "noncesOf fs = snd (snd fs)"

definition rampConstant :: real where
  "rampConstant = 40"

definition decayConstant :: real where
  "decayConstant = 7"

definition rewardPerEpoch :: real where
  "rewardPerEpoch = 100"

text \<open>The map \<^verbatim>\<open>nodeAddresses\<close> of \<^verbatim>\<open>calculateEffectivenessUpdates\<close>.\<close>

definition nodeAddresses :: "env \<Rightarrow> state \<Rightarrow> (string \<times> address) list" where
  "nodeAddresses env st =
     foldl (\<lambda>m (nodeId, p).
              if falsy (p_publicKeyHash p) then m
              else AList.update nodeId (case p_publicKeyHash p of Some h \<Rightarrow> h | None \<Rightarrow> []) m)
       [(NODE_NAME env, publicKeyHash env)] (peers st)"

text \<open>
  \<^verbatim>\<open>peer?.effectiveness || (nodeId === NODE_NAME ? state.effectiveness : 0)\<close>: a
  missing peer and an effectiveness of 0 both fall through to the right operand.
\<close>

definition currentEff :: "env \<Rightarrow> state \<Rightarrow> string \<Rightarrow> real" where
  "currentEff env st nodeId =
     (let fallback = (if nodeId = NODE_NAME env then effectiveness st else 0)
      in case map_of (peers st) nodeId of
           None \<Rightarrow> fallback
         | Some p \<Rightarrow> if p_effectiveness p = 0 then fallback else p_effectiveness p)"

text \<open>The body of the loop over \<^verbatim>\<open>allNodes\<close>, with \<^verbatim>\<open>days = 1 / 144\<close>.\<close>

definition effectivenessStep ::
  "env \<Rightarrow> state \<Rightarrow> receipt list \<Rightarrow> (address \<times> real) list \<Rightarrow> string \<Rightarrow> (address \<times> real) list" where
  "effectivenessStep env st rcpts updates nodeId =
     (case map_of (nodeAddresses env st) nodeId of
        None \<Rightarrow> updates
      | Some addr \<Rightarrow>
          if addr = [] then updates
          else (let nodeReceipts = filter (\<lambda>r. r_to r = Some nodeId \<and> r_success r) rcpts;
                    wasOnline = (length nodeReceipts > 0);
                    days = (1 / 144 :: real);
                    eff = (if wasOnline
                           then 1 - (1 - currentEff env st nodeId) * exp (- days / rampConstant)
                           else currentEff env st nodeId * exp (- days / decayConstant))
                in AList.update addr (max 0 (min 1 eff)) updates))"

definition calculateEffectivenessUpdates ::
  "env \<Rightarrow> state \<Rightarrow> receipt list \<Rightarrow> (address \<times> real) list" where
  "calculateEffectivenessUpdates env st rcpts =
     foldl (effectivenessStep env st rcpts) [] (NODE_NAME env # map fst (peers st))"

definition calculateRewards :: "(address \<times> real) list \<Rightarrow> (address \<times> real) list" where
  "calculateRewards updates =
     (let totalEff = foldl (+) 0 (map snd updates)
      in if totalEff = 0 then []
         else foldl (\<lambda>rw (addr, eff).
                       if eff > 0 then AList.update addr (eff / totalEff * rewardPerEpoch) rw
                       else rw)
                [] updates)"

fun joinWith :: "string \<Rightarrow> string list \<Rightarrow> string" where
  "joinWith sep [] = []"
| "joinWith sep [x] = x"
| "joinWith sep (x # y # ys) = x @ sep @ joinWith sep (y # ys)"

definition stateEntry :: "env \<Rightarrow> address \<Rightarrow> real \<Rightarrow> real \<Rightarrow> string" where
  "stateEntry env addr bal n = addr @ '':'' @ showNum env bal @ '':'' @ showNum env n"

definition calculateStateRoot ::
  "env \<Rightarrow> (address \<times> account) list \<Rightarrow> (address \<times> real) list \<Rightarrow> (address \<times> real) list \<Rightarrow> string" where
  "calculateStateRoot env accts tempBalances tempNonces =
     (let existing = map (\<lambda>(addr, account).
                        stateEntry env addr
                          (case map_of tempBalances addr of
                             Some x \<Rightarrow> x | None \<Rightarrow> balance account)
                          (case map_of tempNonces addr of
                             Some n \<Rightarrow> n | None \<Rightarrow> nonce account)) accts;
          fresh = map (\<lambda>(addr, bal).
                        stateEntry env addr bal
                          (case map_of tempNonces addr of Some n \<Rightarrow> n | None \<Rightarrow> 0))
                    (filter (\<lambda>(addr, bal). map_of accts addr = None) tempBalances)
      in hash env (joinWith '','' (sort (existing @ fresh))))"

text \<open>\<^verbatim>\<open>createBlock(epoch, receipts, transactions)\<close>; \<open>now\<close> is \<^verbatim>\<open>Date.now()\<close>.\<close>

definition createBlock ::
  "env \<Rightarrow> state \<Rightarrow> int \<Rightarrow> nat \<Rightarrow> receipt list \<Rightarrow> transaction list \<Rightarrow> block" where
  "createBlock env st now ep rcpts txs =
     (let effUpdates = calculateEffectivenessUpdates env st rcpts;
          rw = calculateRewards effUpdates
      in case filterTransactions (accounts st) txs of
           (validTxs, tempBalances, tempNonces) \<Rightarrow>
             (let d = \<lparr>epoch = ep, previousHash = lastHash st, leader = NODE_NAME env,
                       leaderPubKey = publicKeyPem env, timestamp = now,
                       txRoot = calculateMerkleRoot env (map (hashTx env) validTxs),
                       receiptRoot = calculateMerkleRoot env (map (hashReceipt env) rcpts),
                       stateRoot =
                         calculateStateRoot env (accounts st) tempBalances tempNonces,
                       receipts = rcpts, transactions = validTxs,
                       effectivenessUpdates = effUpdates, rewards = rw\<rparr>;
                  h = hashBlockData env d
              in \<lparr>epoch = epoch d, previousHash = previousHash d, leader = leader d,
                  leaderPubKey = leaderPubKey d, timestamp = timestamp d,
                  txRoot = txRoot d, receiptRoot = receiptRoot d, stateRoot = stateRoot d,
                  receipts = receipts d, transactions = transactions d,
                  effectivenessUpdates = effectivenessUpdates d, rewards = rewards d,
                  bhash = h, leaderSignature = sign env h, votes = []\<rparr>))"

section \<open>Leader election as the specification words it\<close>

text \<open>
  The specification takes the sorted list of the known validator \<^emph>\<open>addresses\<close>, self
  plus peers, and returns its entry at the index. The addresses a node knows are those
  of the table \<open>nodeAddresses\<close>, which \<^verbatim>\<open>calculateEffectivenessUpdates\<close> builds
  from its own \<^verbatim>\<open>publicKeyHash\<close> and those of its peers.
\<close>

definition knownAddresses :: "env \<Rightarrow> state \<Rightarrow> address list" where
  "knownAddresses env st = map snd (nodeAddresses env st)"

definition electLeaderByAddress :: "env \<Rightarrow> state \<Rightarrow> nat \<Rightarrow> address option" where
  "electLeaderByAddress env st ep =
     (let L = sort (knownAddresses env st);
          epochHash = hash env (''epoch-'' @ showNat ep @ ''-view-'' @ showNat (currentView st))
      in case parseInt16 (take 8 epochHash) of
           None \<Rightarrow> None
         | Some v \<Rightarrow> Some (L ! (v mod length L)))"

section \<open>Initial state and a concrete platform\<close>

text \<open>The object \<^verbatim>\<open>state\<close> as the module creates it.\<close>

definition initialState :: state where
  "initialState =
     \<lparr>peers = [], chain = [], pendingReceipts = [], pendingTransactions = [],
      accounts = [], currentEpoch = 0, currentView = 0, proposedBlock = None,
      st_votes = [], viewChangeVotes = [], seenProposals = [], slashedNodes = [],
      effectiveness = 0, blocksCommitted = 0, viewChanges = 0, slashEvents = 0\<rparr>"

text \<open>
  A small platform on which the model runs: a 32-byte digest that depends on the length
  of its input only, keys of the form \<^verbatim>\<open>pem-k\<close>, and signatures that name the key
  and the message. The address a node announces (\<open>publicKeyHash\<close>) is a readable
  name. The platform is used for the concrete runs below; the general theorems hold for
  every platform.
\<close>

definition toySha :: "string \<Rightarrow> 8 word list" where
  "toySha s = replicate 32 (of_nat (length s))"

definition toyParseKey :: "string \<Rightarrow> string option" where
  "toyParseKey pem = (if take 4 pem = ''pem-'' then Some (drop 4 pem) else None)"

definition toyVerify :: "string \<Rightarrow> string \<Rightarrow> string \<Rightarrow> bool" where
  "toyVerify k msg sig = (sig = ''sig-'' @ k @ ''-'' @ msg)"

definition toyJsonTx :: "transaction \<Rightarrow> string" where
  "toyJsonTx tx = tx_from tx @ '','' @ tx_to tx @ '','' @ tx_signature tx"

definition toyJsonBlockData :: "blockData \<Rightarrow> string" where
  "toyJsonBlockData d = showNat (epoch d) @ '','' @ previousHash d @ '','' @ leader d"

definition nodeEnv :: "string \<Rightarrow> env" where
  "nodeEnv name =
     \<lparr>NODE_NAME = name, publicKeyPem = ''pem-'' @ name, publicKeyHash = ''addr-'' @ name,
      sha256 = toySha, parseKey = toyParseKey, edVerify = toyVerify,
      signRaw = (\<lambda>msg. ''sig-'' @ name @ ''-'' @ msg),
      jsonTx = toyJsonTx, jsonReceipt = (\<lambda>r. ''receipt''),
      jsonBlockData = toyJsonBlockData,
      jsonEpochView = (\<lambda>e v. showNat e @ ''/'' @ showNat v),
      showNum = (\<lambda>x. ''num'')\<rparr>"

definition peerAt :: "string \<Rightarrow> string \<times> peer" where
  "peerAt name =
     (name, \<lparr>p_url = ''http://'' @ name, p_publicKeyHash = Some (''addr-'' @ name),
             p_effectiveness = 0\<rparr>)"

definition stateWithPeers :: "string list \<Rightarrow> state" where
  "stateWithPeers names = initialState\<lparr>peers := map peerAt names\<rparr>"

text \<open>A peer that announced itself under the id \<open>name\<close> with the address \<open>addr\<close>.\<close>

definition peerNamed :: "string \<Rightarrow> address \<Rightarrow> string \<times> peer" where
  "peerNamed name addr =
     (name, \<lparr>p_url = ''http://'' @ name, p_publicKeyHash = Some addr, p_effectiveness = 0\<rparr>)"

text \<open>
  Three views of a network of three validators with the addresses \<^verbatim>\<open>addr-n1\<close>,
  \<^verbatim>\<open>addr-n2\<close> and \<^verbatim>\<open>addr-n3\<close>. The node \<^verbatim>\<open>n2\<close> knows the validator
  \<^verbatim>\<open>addr-n1\<close> under the id \<^verbatim>\<open>zz\<close>; the node \<^verbatim>\<open>n1\<close> has received an
  announcement that carries its own id. In the last state the peer \<^verbatim>\<open>n2\<close> has an
  address that sorts after the others.
\<close>

definition renamedView :: state where
  "renamedView = initialState\<lparr>peers := [peerNamed ''zz'' ''addr-n1'', peerAt ''n3'']\<rparr>"

definition selfAnnouncedView :: state where
  "selfAnnouncedView = stateWithPeers [''n1'', ''n2'', ''n3'']"

definition reorderedView :: state where
  "reorderedView = initialState\<lparr>peers := [peerNamed ''n2'' ''zaddr'', peerAt ''n3'']\<rparr>"

text \<open>A faucet transaction, as the \<^verbatim>\<open>/faucet\<close> endpoint queues it.\<close>

definition coinbaseTx :: transaction where
  "coinbaseTx =
     \<lparr>tx_from = ''coinbase'', tx_to = ''addr-n1'', amount = 1000, tx_nonce = 7,
      tx_timestamp = 7, tx_signature = ''coinbase''\<rparr>"

text \<open>The block the genesis node builds from a single faucet transaction.\<close>

definition faucetBlock :: block where
  "faucetBlock = createBlock (nodeEnv ''n1'') initialState 0 1 [] [coinbaseTx]"

text \<open>A block none of whose transactions is a coinbase transaction.\<close>

definition coinbaseFree :: "block \<Rightarrow> bool" where
  "coinbaseFree b = list_all (\<lambda>tx. tx_from tx \<noteq> ''coinbase'') (transactions b)"

text \<open>
  A block the node \<^verbatim>\<open>n2\<close> builds and signs in a network of four nodes, carrying two
  votes.
\<close>

definition underVotedBlock :: block where
  "underVotedBlock =
     (createBlock (nodeEnv ''n2'') (stateWithPeers [''n1'', ''n3'', ''n4'']) 0 1 [] [])
       \<lparr>votes := [(''n2'', ''sig-n2''), (''n3'', ''sig-n3'')]\<rparr>"

text \<open>
  A block that names \<^verbatim>\<open>n2\<close> as leader, with a hash that is not the hash of its
  content, a signature under a key that does not parse, and a transaction from an
  address without funds.
\<close>

definition overdraftTx :: transaction where
  "overdraftTx =
     \<lparr>tx_from = ''addr-n2'', tx_to = ''addr-n9'', amount = 600, tx_nonce = 4,
      tx_timestamp = 9, tx_signature = ''none''\<rparr>"

definition forgedBlock :: block where
  "forgedBlock =
     \<lparr>epoch = 5, previousHash = zeroHash, leader = ''n2'', leaderPubKey = ''not-a-key'',
      timestamp = 9, txRoot = [], receiptRoot = [], stateRoot = [], receipts = [],
      transactions = [overdraftTx], effectivenessUpdates = [], rewards = [],
      bhash = ''bogus'', leaderSignature = ''forged'', votes = []\<rparr>"

text \<open>
  Two proposals of \<^verbatim>\<open>n2\<close> for epoch 5 that differ in their hash, each signed over
  its hash, and an observer that has handled the first of them.
\<close>

definition equivocatingBlock :: "string \<Rightarrow> block" where
  "equivocatingBlock h =
     \<lparr>epoch = 5, previousHash = zeroHash, leader = ''n2'', leaderPubKey = ''pem-n2'',
      timestamp = 9, txRoot = [], receiptRoot = [], stateRoot = [], receipts = [],
      transactions = [], effectivenessUpdates = [], rewards = [],
      bhash = h, leaderSignature = ''sig-n2-'' @ h, votes = []\<rparr>"

definition n2Address :: address where
  "n2Address = take 40 (hash (nodeEnv ''n1'') ''n2'')"

definition observerBase :: state where
  "observerBase =
     (stateWithPeers [''n2'', ''n3''])\<lparr>accounts := [(n2Address, \<lparr>balance = 800, nonce = 3\<rparr>)]\<rparr>"

definition observerState :: state where
  "observerState =
     snd (handleBlockProposal (nodeEnv ''n1'') observerBase (equivocatingBlock ''aaaa''))"

text \<open>
  The proposal of \<^verbatim>\<open>n3\<close> for a later epoch, and the observer after it has handled
  the proposals of the ten epochs 6 to 15.
\<close>

definition laterProposal :: "nat \<Rightarrow> block" where
  "laterProposal e =
     \<lparr>epoch = e, previousHash = zeroHash, leader = ''n3'', leaderPubKey = ''pem-n3'',
      timestamp = 9, txRoot = [], receiptRoot = [], stateRoot = [], receipts = [],
      transactions = [], effectivenessUpdates = [], rewards = [],
      bhash = ''cccc'', leaderSignature = ''sig-n3-cccc'', votes = []\<rparr>"

definition floodedState :: state where
  "floodedState =
     foldl (\<lambda>s b. snd (handleBlockProposal (nodeEnv ''n1'') s b)) observerBase
       (map laterProposal [6, 7, 8, 9, 10, 11, 12, 13, 14, 15])"

text \<open>A ledger with one funded account and transfers from it.\<close>

definition aliceAccounts :: "real \<Rightarrow> (address \<times> account) list" where
  "aliceAccounts b = [(''alice'', \<lparr>balance = b, nonce = 0\<rparr>)]"

text \<open>The same account after \<open>2 ^ 53 - 1\<close> transfers.\<close>

definition veteranAccounts :: "(address \<times> account) list" where
  "veteranAccounts = [(''alice'', \<lparr>balance = 1000, nonce = 9007199254740991\<rparr>)]"

definition aliceTx :: "address \<Rightarrow> real \<Rightarrow> real \<Rightarrow> transaction" where
  "aliceTx recipient amt n =
     \<lparr>tx_from = ''alice'', tx_to = recipient, amount = amt, tx_nonce = n,
      tx_timestamp = 0, tx_signature = ''sig-alice-'' @ recipient\<rparr>"

text \<open>
  A node of three validators in epoch 7 that has tallied two view-change votes for view
  1, and a view-change message without any signature.
\<close>

definition unsignedViewChange :: viewChange where
  "unsignedViewChange =
     \<lparr>vc_epoch = 7, vc_oldView = 0, vc_newView = 1, vc_from = ''n4'', vc_signature = None\<rparr>"

definition waitingState :: state where
  "waitingState =
     (stateWithPeers [''n2'', ''n3''])
       \<lparr>currentEpoch := 7, viewChangeVotes := [(''7-1'', [''n2'', ''n3''])]\<rparr>"

text \<open>The signed receipt of a responder that completed its challenge.\<close>

definition successReceipt :: "string \<Rightarrow> receipt" where
  "successReceipt responder =
     \<lparr>challengeId = Some ''e1-n1-c0'', r_from = Some ''n1'', r_to = Some responder,
      r_success = True, r_signature = Some (''sig-'' @ responder)\<rparr>"

section \<open>Lemmas on double-precision arithmetic\<close>

lemma pow2_powr: "pow2 z = 2 powr of_int z"
  by (simp add: pow2_def powr_real_of_int divide_inverse)

lemma pow2_pos: "0 < pow2 z"
  by (simp add: pow2_powr)

lemma binade_bounds:
  assumes "x \<noteq> 0"
  shows "pow2 (binade x) \<le> \<bar>x\<bar>" "\<bar>x\<bar> < pow2 (binade x + 1)"
  using assms floor_log_eq_powr_iff[of "\<bar>x\<bar>" 2 "binade x"]
  by (simp_all add: binade_def pow2_powr)

lemma binade_eqI:
  assumes "pow2 k \<le> \<bar>x\<bar>" "\<bar>x\<bar> < pow2 (k + 1)"
  shows "binade x = k"
proof -
  have "0 < \<bar>x\<bar>" using assms(1) pow2_pos[of k] by linarith
  then show ?thesis
    using assms floor_log_eq_powr_iff[of "\<bar>x\<bar>" 2 k]
    by (simp add: binade_def pow2_powr)
qed

lemma roundHalfEven_int: "roundHalfEven (of_int m) = m"
  by (simp add: roundHalfEven_def)

lemma roundDouble_exact:
  assumes "x / ulp x = of_int m"
  shows "roundDouble x = x"
proof (cases "x = 0")
  case True then show ?thesis by (simp add: roundDouble_def)
next
  case False
  have "ulp x \<noteq> 0" using pow2_pos[of "max (binade x - 52) (- 1074)"] by (simp add: ulp_def)
  then have "x = of_int m * ulp x" using assms by (simp add: field_simps)
  then show ?thesis
    using False by (simp add: roundDouble_def assms roundHalfEven_int)
qed


lemma pow2_add: "pow2 (a + b) = pow2 a * pow2 b"
  by (simp add: pow2_powr powr_add)

lemma pow2_mono: "a \<le> b \<Longrightarrow> pow2 a \<le> pow2 b"
  by (simp add: pow2_powr)

lemma pow2_nat: "pow2 (int n) = 2 ^ n"
  by (simp add: pow2_def)

lemma ulp_pos: "0 < ulp x"
  by (simp add: ulp_def pow2_pos)

lemma roundHalfEven_error: "\<bar>of_int (roundHalfEven z) - z\<bar> \<le> 1 / 2"
  unfolding roundHalfEven_def Let_def by (auto; linarith)

lemma roundHalfEven_ge: "of_int m \<le> z \<Longrightarrow> m \<le> roundHalfEven z"
proof -
  assume "of_int m \<le> z"
  then have "m \<le> \<lfloor>z\<rfloor>" by (simp add: le_floor_iff)
  then show ?thesis
    unfolding roundHalfEven_def Let_def by auto
qed

lemma roundDouble_error: "\<bar>roundDouble x - x\<bar> \<le> ulp x / 2"
proof (cases "x = 0")
  case True
  then show ?thesis using ulp_pos[of x] by (simp add: roundDouble_def)
next
  case False
  let ?u = "ulp x"
  have u: "0 < ?u" by (rule ulp_pos)
  have "roundDouble x - x = (of_int (roundHalfEven (x / ?u)) - x / ?u) * ?u"
    using False u by (simp add: roundDouble_def field_simps)
  then have "\<bar>roundDouble x - x\<bar> = \<bar>of_int (roundHalfEven (x / ?u)) - x / ?u\<bar> * ?u"
    using u by (simp add: abs_mult)
  also have "\<dots> \<le> (1 / 2) * ?u"
    using roundHalfEven_error[of "x / ?u"] u by (intro mult_right_mono) simp_all
  finally show ?thesis by simp
qed

lemma binade_le:
  assumes "x \<noteq> 0" "\<bar>x\<bar> < pow2 k"
  shows "binade x < k"
proof (rule ccontr)
  assume "\<not> binade x < k"
  then have "pow2 k \<le> pow2 (binade x)" by (intro pow2_mono) simp
  with binade_bounds(1)[OF assms(1)] assms(2) show False by linarith
qed

lemma binade_ge:
  assumes "pow2 k \<le> \<bar>x\<bar>"
  shows "k \<le> binade x"
proof (rule ccontr)
  assume "\<not> k \<le> binade x"
  then have "pow2 (binade x + 1) \<le> pow2 k" by (intro pow2_mono) simp
  moreover have "x \<noteq> 0" using assms pow2_pos[of k] by auto
  ultimately show False using binade_bounds(2)[of x] assms by linarith
qed

lemma ulp_le_one:
  assumes "x \<noteq> 0" "\<bar>x\<bar> < 2 ^ 53"
  shows "ulp x \<le> 1"
proof -
  have "\<bar>x\<bar> < pow2 53" using assms(2) by (simp add: pow2_def)
  from binade_le[OF assms(1) this] have "max (binade x - 52) (- 1074) \<le> 0" by simp
  then have "pow2 (max (binade x - 52) (- 1074)) \<le> pow2 0" by (rule pow2_mono)
  then show ?thesis by (simp add: ulp_def pow2_def)
qed

lemma roundDouble_large:
  assumes "2 ^ 53 \<le> x"
  shows "2 ^ 53 \<le> roundDouble x"
proof -
  have x0: "x \<noteq> 0" "0 < x" using assms by (auto intro: less_le_trans[of 0 "2 ^ 53"])
  have "pow2 53 \<le> \<bar>x\<bar>" using assms by (simp add: pow2_def)
  then have b: "53 \<le> binade x" by (rule binade_ge)
  then have u: "ulp x = pow2 (binade x - 52)" by (simp add: ulp_def max_def)
  have split: "pow2 (binade x) = pow2 52 * pow2 (binade x - 52)"
    using pow2_add[of 52 "binade x - 52"] by simp
  have "pow2 52 * ulp x \<le> x"
    using binade_bounds(1)[OF x0(1)] x0(2) unfolding u split[symmetric] by simp
  then have "of_int (2 ^ 52) \<le> x / ulp x"
    using ulp_pos[of x] by (simp add: pow2_def field_simps)
  then have "(2 ^ 52 :: int) \<le> roundHalfEven (x / ulp x)" by (rule roundHalfEven_ge)
  then have "(of_int (2 ^ 52) :: real) \<le> of_int (roundHalfEven (x / ulp x))"
    by (simp only: of_int_le_iff)
  then have "of_int (2 ^ 52) * ulp x \<le> of_int (roundHalfEven (x / ulp x)) * ulp x"
    using ulp_pos[of x] by (intro mult_right_mono) simp_all
  moreover have "of_int (2 ^ 52) * ulp x = pow2 (binade x)"
    unfolding u split by (simp add: pow2_def)
  moreover have "pow2 53 \<le> pow2 (binade x)" using b by (rule pow2_mono)
  ultimately show ?thesis
    using x0 by (simp add: roundDouble_def pow2_def)
qed

lemma next_nonce_greater:
  assumes n: "\<bar>n\<bar> < 2 ^ 53" and c: "n \<le> c"
  shows "n < roundDouble (c + 1)"
proof -
  consider "c + 1 = 0" | "c + 1 \<noteq> 0" "\<bar>c + 1\<bar> < 2 ^ 53" | "2 ^ 53 \<le> c + 1" | "c + 1 \<le> - (2 ^ 53)"
    by (cases "c + 1 = 0"; cases "\<bar>c + 1\<bar> < 2 ^ 53") (auto simp: abs_if split: if_splits)
  then show ?thesis
  proof cases
    case 1
    then show ?thesis using c by (simp add: roundDouble_def)
  next
    case 2
    from ulp_le_one[OF 2] roundDouble_error[of "c + 1"]
    have "\<bar>roundDouble (c + 1) - (c + 1)\<bar> \<le> 1 / 2" by linarith
    then show ?thesis using c by linarith
  next
    case 3
    from roundDouble_large[OF 3] n show ?thesis by linarith
  next
    case 4
    with n c show ?thesis by linarith
  qed
qed


lemma roundDouble_int:
  assumes "\<bar>k\<bar> \<le> 2 ^ 53"
  shows "roundDouble (of_int k) = of_int k"
proof (cases "k = 0")
  case True
  then show ?thesis by (simp add: roundDouble_def)
next
  case False
  let ?x = "of_int k :: real"
  have x0: "?x \<noteq> 0" using False by simp
  have "1 \<le> \<bar>k\<bar>" using False by simp
  then have "(1::real) \<le> \<bar>?x\<bar>" by (metis of_int_1_le_iff of_int_abs)
  then have "pow2 0 \<le> \<bar>?x\<bar>" by (simp add: pow2_def)
  then have b0: "0 \<le> binade ?x" by (rule binade_ge)
  show ?thesis
  proof (cases "\<bar>k\<bar> < 2 ^ 53")
    case True
    then have "\<bar>?x\<bar> < of_int (2 ^ 53)" by (metis of_int_less_iff of_int_abs)
    then have "\<bar>?x\<bar> < pow2 53" by (simp add: pow2_def)
    from binade_le[OF x0 this] have b1: "binade ?x \<le> 52" by simp
    define e where "e = nat (52 - binade ?x)"
    have u: "ulp ?x = 1 / 2 ^ e"
    proof (cases "binade ?x = 52")
      case True then show ?thesis by (simp add: ulp_def pow2_def e_def)
    next
      case False
      with b0 b1 show ?thesis by (simp add: ulp_def pow2_def e_def max_def)
    qed
    have "?x / ulp ?x = of_int (k * 2 ^ e)" by (simp add: u)
    then show ?thesis by (rule roundDouble_exact)
  next
    case False
    with assms have k: "\<bar>k\<bar> = 2 ^ 53" by simp
    then have ax: "\<bar>?x\<bar> = 2 ^ 53" by (metis of_int_abs of_int_numeral of_int_power)
    have "binade ?x = 53"
      by (rule binade_eqI) (simp_all add: ax pow2_def)
    then have u: "ulp ?x = 2" by (simp add: ulp_def pow2_def)
    have "even k" using k by (metis even_abs_add_iff even_add even_numeral even_power zero_less_numeral)
    then obtain j where "k = 2 * j" by (elim evenE)
    then have "?x = 2 * of_int j" by simp
    then have "?x / ulp ?x = of_int j" unfolding u by simp
    then show ?thesis by (rule roundDouble_exact)
  qed
qed

lemma roundDouble_numeral:
  "(numeral w :: int) \<le> 2 ^ 53 \<Longrightarrow> roundDouble (numeral w) = numeral w"
  "(numeral w :: int) \<le> 2 ^ 53 \<Longrightarrow> roundDouble (- numeral w) = - numeral w"
  using roundDouble_int[of "numeral w"] roundDouble_int[of "- numeral w"] by simp_all

lemma roundDouble_0_1: "roundDouble 0 = 0" "roundDouble 1 = 1"
  using roundDouble_int[of 0] roundDouble_int[of 1] by simp_all

lemma roundDouble_tie: "roundDouble (9007199254740992 + 1) = 9007199254740992"
proof -
  have "binade 9007199254740993 = 53"
    by (rule binade_eqI) (simp_all add: pow2_def)
  then have u: "ulp 9007199254740993 = 2" by (simp add: ulp_def pow2_def)
  have f: "\<lfloor>9007199254740993 / (2::real)\<rfloor> = 4503599627370496" by simp
  have "roundHalfEven (9007199254740993 / 2) = 4503599627370496"
    unfolding roundHalfEven_def Let_def f by simp
  then show ?thesis by (simp add: roundDouble_def u)
qed

lemma roundDouble_relative:
  assumes "1 / 2 \<le> \<bar>x\<bar>"
  shows "\<bar>roundDouble x - x\<bar> \<le> \<bar>x\<bar> / 2 ^ 53"
proof -
  have x0: "x \<noteq> 0" using assms by auto
  have "pow2 (- 1) \<le> \<bar>x\<bar>" using assms by (simp add: pow2_def)
  then have "- 1 \<le> binade x" by (rule binade_ge)
  then have u: "ulp x = pow2 (binade x - 52)" by (simp add: ulp_def max_def)
  have "pow2 (binade x) = pow2 52 * pow2 (binade x - 52)"
    using pow2_add[of 52 "binade x - 52"] by simp
  with binade_bounds(1)[OF x0] have "2 ^ 52 * ulp x \<le> \<bar>x\<bar>"
    by (simp add: u pow2_def)
  with roundDouble_error[of x] show ?thesis by simp
qed

lemma quorum_three_of:
  assumes "n = 3 \<or> n = (4::real)"
  shows "\<lceil>roundDouble (n * roundDouble (67 / 100))\<rceil> = 3"
proof -
  define q where "q = roundDouble (67 / 100)"
  define p where "p = n * q"
  have eps: "(1::real) / 2 ^ 53 \<le> 1 / 1000" by simp
  have "\<bar>q - 67 / 100\<bar> \<le> \<bar>67 / 100\<bar> / 2 ^ 53"
    unfolding q_def by (rule roundDouble_relative) simp
  then have q: "\<bar>q - 67 / 100\<bar> \<le> 1 / 1000" by simp
  from q have q': "669 / 1000 \<le> q" "q \<le> 671 / 1000" by linarith+
  have p: "2 + 1 / 200 \<le> p" "p \<le> 2 + 17 / 20"
    using assms q' unfolding p_def by auto
  then have "1 / 2 \<le> \<bar>p\<bar>" by simp
  then have "\<bar>roundDouble p - p\<bar> \<le> \<bar>p\<bar> / 2 ^ 53" by (rule roundDouble_relative)
  also have "\<dots> \<le> 3 / 2 ^ 53" using p by (intro divide_right_mono) simp_all
  also have "\<dots> \<le> 1 / 1000" by simp
  finally have "2 < roundDouble p" "roundDouble p \<le> 3" using p by linarith+
  then have "\<lceil>roundDouble p\<rceil> = 3" by (intro ceiling_unique) simp_all
  then show ?thesis by (simp add: p_def q_def)
qed

lemma roundDouble_eval:
  assumes "pow2 k \<le> \<bar>x\<bar>" "\<bar>x\<bar> < pow2 (k + 1)" "- 1022 \<le> k"
    and "\<lfloor>x / pow2 (k - 52)\<rfloor> = f"
    and "m = (let r = x / pow2 (k - 52) - of_int f
              in if r < 1 / 2 then f else if 1 / 2 < r then f + 1
                 else if even f then f else f + 1)"
  shows "roundDouble x = of_int m * pow2 (k - 52)"
proof -
  have b: "binade x = k" using assms(1,2) by (rule binade_eqI)
  have x0: "x \<noteq> 0" using assms(1) pow2_pos[of k] by auto
  have "max (k - 52) (- 1074) = k - 52" using assms(3) by simp
  then have u: "ulp x = pow2 (k - 52)" by (simp add: ulp_def b)
  have "roundHalfEven (x / pow2 (k - 52)) = m"
    unfolding roundHalfEven_def assms(4) assms(5) by (simp add: Let_def)
  then show ?thesis using x0 by (simp add: roundDouble_def u)
qed

text \<open>
  Rounding at work: the literal \<^verbatim>\<open>0.67\<close> is not 67/100, the quorum of 1500 nodes is
  1006 where the exact product gives 1005, and \<^verbatim>\<open>0.1 + 0.2\<close> is not \<^verbatim>\<open>0.3\<close>.
\<close>

lemma roundDouble_quorumFraction: "roundDouble (67 / 100) = 6034823500676465 / 2 ^ 53"
proof -
  have "binade (67 / 100) = - 1"
    by (rule binade_eqI) (simp_all add: pow2_def)
  then have u: "ulp (67 / 100) = 1 / 2 ^ 53" by (simp add: ulp_def pow2_def)
  have f: "\<lfloor>67 / 100 / (1 / 2 ^ 53 :: real)\<rfloor> = 6034823500676464" by simp
  have "roundHalfEven (67 / 100 / (1 / 2 ^ 53)) = 6034823500676465"
    unfolding roundHalfEven_def Let_def f by simp
  then show ?thesis by (simp add: roundDouble_def u)
qed

lemma quorum_of_1500:
  "\<lceil>roundDouble (1500 * roundDouble (67 / 100))\<rceil> = 1006"
  "\<lceil>1500 * (67 / 100 :: real)\<rceil> = 1005"
proof -
  define p :: real where "p = 1500 * (6034823500676465 / 2 ^ 53)"
  have "binade p = 9"
    by (rule binade_eqI) (simp_all add: pow2_def p_def)
  then have u: "ulp p = 1 / 2 ^ 43" by (simp add: ulp_def pow2_def)
  from roundDouble_error[of p] have "\<bar>roundDouble p - p\<bar> \<le> 1 / 2 ^ 44"
    by (simp add: u)
  moreover have "1005 + 1 / 2 ^ 44 < p" "p < 1006 - 1 / 2 ^ 44"
    by (simp_all add: p_def)
  ultimately have "1005 < roundDouble p" "roundDouble p \<le> 1006" by linarith+
  then have "\<lceil>roundDouble p\<rceil> = 1006" by (intro ceiling_unique) simp_all
  then show "\<lceil>roundDouble (1500 * roundDouble (67 / 100))\<rceil> = 1006"
    by (simp add: p_def roundDouble_quorumFraction)
  show "\<lceil>1500 * (67 / 100 :: real)\<rceil> = 1005" by simp
qed


lemma roundDouble_tenths:
  "roundDouble (1 / 10) = 3602879701896397 / 2 ^ 55"
  "roundDouble (1 / 5) = 3602879701896397 / 2 ^ 54"
  "roundDouble (3 / 10) = 5404319552844595 / 2 ^ 54"
  "roundDouble (3602879701896397 / 2 ^ 55 + 3602879701896397 / 2 ^ 54)
     = 5404319552844596 / 2 ^ 54"
proof -
  have "roundDouble (1 / 10) = of_int 7205759403792794 * pow2 (- 4 - 52)"
    by (rule roundDouble_eval[where f = 7205759403792793]) (simp_all add: pow2_def)
  then show "roundDouble (1 / 10) = 3602879701896397 / 2 ^ 55"
    by (simp add: pow2_def)
  have "roundDouble (1 / 5) = of_int 7205759403792794 * pow2 (- 3 - 52)"
    by (rule roundDouble_eval[where f = 7205759403792793]) (simp_all add: pow2_def)
  then show "roundDouble (1 / 5) = 3602879701896397 / 2 ^ 54"
    by (simp add: pow2_def)
  have "roundDouble (3 / 10) = of_int 5404319552844595 * pow2 (- 2 - 52)"
    by (rule roundDouble_eval[where f = 5404319552844595]) (simp_all add: pow2_def)
  then show "roundDouble (3 / 10) = 5404319552844595 / 2 ^ 54"
    by (simp add: pow2_def)
  have "roundDouble (3602879701896397 / 2 ^ 55 + 3602879701896397 / 2 ^ 54)
      = of_int 5404319552844596 * pow2 (- 2 - 52)"
    by (rule roundDouble_eval[where f = 5404319552844595]) (simp_all add: pow2_def)
  then show "roundDouble (3602879701896397 / 2 ^ 55 + 3602879701896397 / 2 ^ 54)
     = 5404319552844596 / 2 ^ 54"
    by (simp add: pow2_def)
qed

lemma dadd_tenths: "dadd (roundDouble (1 / 10)) (roundDouble (1 / 5)) \<noteq> roundDouble (3 / 10)"
  unfolding dadd_def roundDouble_tenths by simp

lemmas double_simps = dadd_def dsub_def dmul_def roundDouble_numeral roundDouble_0_1

lemma votesNeeded_three:
  assumes "length (peers st) = 2 \<or> length (peers st) = 3"
  shows "votesNeeded st = 3"
proof -
  have "real (length (peers st) + 1) = 3 \<or> real (length (peers st) + 1) = 4"
    using assms by auto
  from quorum_three_of[OF this] show ?thesis
    by (simp add: votesNeeded_def dmul_def quorumFraction_def)
qed

lemma votesNeeded_1500:
  assumes "length (peers st) = 1499"
  shows "votesNeeded st = 1006"
  using quorum_of_1500(1) assms by (simp add: votesNeeded_def dmul_def quorumFraction_def)

section \<open>Lemmas on digests and hexadecimal parsing\<close>

lemma hexVal_hexDigit: "n < 16 \<Longrightarrow> hexVal (hexDigit n) = Some n"
proof -
  assume "n < 16"
  then have "n \<in> {0,1,2,3,4,5,6,7,8,9,10,11,12,13,14,15}" by simp arith
  then show ?thesis
    by (auto simp: hexVal_def hexDigit_def)
qed

lemma unat_byte_div: "unat (b :: 8 word) div 16 < 16"
proof -
  have "unat b < 256" using unsigned_less[of b, where 'a=nat] by simp
  then show ?thesis by simp
qed

lemma hexStep_hexByte: "foldl hexStep acc (hexByte b) = acc * 256 + unat b"
  by (simp add: hexByte_def hexStep_def hexVal_hexDigit unat_byte_div)

lemma foldl_hexStep_digestHex:
  "foldl hexStep acc (digestHex bs) = foldl (\<lambda>a b. a * 256 + unat b) acc bs"
  by (induction bs arbitrary: acc) (simp_all add: digestHex_def hexStep_hexByte)

lemma isHex_digestHex: "takeWhile isHex (digestHex bs) = digestHex bs"
  by (induction bs)
     (simp_all add: digestHex_def hexByte_def isHex_def hexVal_hexDigit unat_byte_div)

lemma take_digestHex: "take (2 * k) (digestHex bs) = digestHex (take k bs)"
proof (induction bs arbitrary: k)
  case Nil
  show ?case by (simp add: digestHex_def)
next
  case (Cons b bs)
  show ?case
  proof (cases k)
    case 0
    then show ?thesis by (simp add: digestHex_def)
  next
    case (Suc j)
    with Cons[of j] show ?thesis by (simp add: digestHex_def hexByte_def)
  qed
qed

lemma digestHex_nonempty: "bs \<noteq> [] \<Longrightarrow> digestHex bs \<noteq> []"
  by (cases bs) (simp_all add: digestHex_def hexByte_def)

lemma parseInt16_digest:
  assumes "4 \<le> length bs"
  shows "parseInt16 (take 8 (digestHex bs)) = Some (beUint (take 4 bs))"
proof -
  have t: "take 8 (digestHex bs) = digestHex (take 4 bs)"
    using take_digestHex[of 4 bs] by simp
  have ne: "digestHex (take 4 bs) \<noteq> []"
    using assms by (intro digestHex_nonempty) auto
  show ?thesis
    unfolding t parseInt16_def
    by (simp add: isHex_digestHex ne foldl_hexStep_digestHex beUint_def Let_def)
qed

lemma sort_mset_cong: "mset xs = mset ys \<Longrightarrow> sort xs = sort (ys :: string list)"
  by (rule properties_for_sort) simp_all

lemma beUint_four:
  "beUint [a, b, c, d] = unat a * 2 ^ 24 + unat b * 2 ^ 16 + unat c * 2 ^ 8 + unat d"
  by (simp add: beUint_def)

lemma decimal_digit:
  assumes "n < 10"
  shows "of_char (hexDigit n) - 48 = n" "hexDigit n \<in> set ''0123456789''"
    "hexDigit n = CHR ''0'' \<longleftrightarrow> n = 0"
proof -
  from assms have "n \<in> {0, 1, 2, 3, 4, 5, 6, 7, 8, 9}" by simp arith
  then show "of_char (hexDigit n) - 48 = n" "hexDigit n \<in> set ''0123456789''"
    "hexDigit n = CHR ''0'' \<longleftrightarrow> n = 0"
    by (auto simp: hexDigit_def)
qed

lemma decimalValue_snoc:
  "decimalValue (s @ [c]) = 10 * decimalValue s + (of_char c - 48)"
  by (simp add: decimalValue_def)

lemma showNat_decimal: "decimalValue (showNat n) = n"
proof (induction n rule: showNat.induct)
  case (1 n)
  show ?case
  proof (cases "n < 10")
    case True
    then have "showNat n = [hexDigit n]" by (simp add: showNat.simps)
    with True show ?thesis by (simp add: decimalValue_def decimal_digit(1))
  next
    case False
    then have "showNat n = showNat (n div 10) @ [hexDigit (n mod 10)]"
      by (subst showNat.simps) simp
    with 1[OF False] show ?thesis
      by (simp add: decimalValue_snoc decimal_digit(1))
  qed
qed

lemma showNat_digits: "c \<in> set (showNat n) \<Longrightarrow> c \<in> set ''0123456789''"
proof (induction n rule: showNat.induct)
  case (1 n)
  show ?case
  proof (cases "n < 10")
    case True
    then have "showNat n = [hexDigit n]" by (simp add: showNat.simps)
    with True 1(2) decimal_digit(2)[of n] show ?thesis by simp
  next
    case False
    then have "showNat n = showNat (n div 10) @ [hexDigit (n mod 10)]"
      by (subst showNat.simps) simp
    with 1(2) have "c \<in> set (showNat (n div 10)) \<or> c = hexDigit (n mod 10)" by auto
    then show ?thesis
    proof
      assume "c \<in> set (showNat (n div 10))"
      with 1(1)[OF False] show ?thesis .
    next
      assume "c = hexDigit (n mod 10)"
      with decimal_digit(2)[of "n mod 10"] show ?thesis by simp
    qed
  qed
qed

lemma showNat_nonempty: "showNat n \<noteq> []"
  by (subst showNat.simps) simp

lemma showNat_no_leading_zero: "showNat n = ''0'' \<or> hd (showNat n) \<noteq> CHR ''0''"
proof (cases "n < 10")
  case True
  then have "showNat n = [hexDigit n]" by (simp add: showNat.simps)
  with True decimal_digit(3)[of n] show ?thesis by (cases "n = 0") (simp_all add: hexDigit_def)
next
  case False
  then have unfold: "showNat n = showNat (n div 10) @ [hexDigit (n mod 10)]"
    by (subst showNat.simps) simp
  have "hd (showNat m) \<noteq> CHR ''0''" if "0 < m" for m
    using that
  proof (induction m rule: showNat.induct)
    case (1 m)
    show ?case
    proof (cases "m < 10")
      case True
      then have "showNat m = [hexDigit m]" by (simp add: showNat.simps)
      with True 1(2) decimal_digit(3)[of m] show ?thesis by simp
    next
      case False
      then have "showNat m = showNat (m div 10) @ [hexDigit (m mod 10)]"
        by (subst showNat.simps) simp
      moreover have "hd (showNat (m div 10)) \<noteq> CHR ''0''"
        using False by (intro 1(1)) simp_all
      ultimately show ?thesis by (simp add: showNat_nonempty)
    qed
  qed
  from this[of n] False show ?thesis by simp
qed

section \<open>Lemmas on the Merkle tree\<close>

lemma nextLevel_pairAdjacent:
  "[] \<notin> set hs \<Longrightarrow> nextLevel env hs = pairAdjacent (hash env) (duplicateLastIfOdd hs)"
proof (induction env hs rule: nextLevel.induct)
  case (1 env)
  show ?case by (simp add: duplicateLastIfOdd_def)
next
  case (2 env l)
  show ?case by (simp add: duplicateLastIfOdd_def)
next
  case (3 env l r rest)
  then have ih: "nextLevel env rest = pairAdjacent (hash env) (duplicateLastIfOdd rest)"
    and r: "r \<noteq> []"
    by auto
  have "duplicateLastIfOdd (l # r # rest) = l # r # duplicateLastIfOdd rest"
    by (cases rest) (auto simp: duplicateLastIfOdd_def)
  with ih r show ?case by simp
qed

lemma nextLevel_nonempty:
  assumes "\<And>s. sha256 env s \<noteq> []"
  shows "[] \<notin> set (nextLevel env hs)"
proof -
  have h: "hash env s \<noteq> []" for s
    unfolding hash_def by (rule digestHex_nonempty) (rule assms)
  show ?thesis
    by (induction hs rule: induct_list012) (simp_all add: h h[symmetric])
qed

lemma merkle_refines:
  assumes "\<And>s. sha256 env s \<noteq> []" "[] \<notin> set hs"
  shows "calculateMerkleRoot env hs = merkleRootSpec (hash env) hs"
  using assms
proof (induction env hs rule: calculateMerkleRoot.induct)
  case (3 env a b rest)
  have ne: "[] \<notin> set (nextLevel env (a # b # rest))"
    using nextLevel_nonempty[OF 3(2)] by blast
  have "calculateMerkleRoot env (a # b # rest) =
      calculateMerkleRoot env (nextLevel env (a # b # rest))"
    by simp
  also have "\<dots> = merkleRootSpec (hash env) (nextLevel env (a # b # rest))"
    using 3(1)[OF 3(2) ne] .
  also have "nextLevel env (a # b # rest) =
      pairAdjacent (hash env) (duplicateLastIfOdd (a # b # rest))"
    using nextLevel_pairAdjacent[OF 3(3)] .
  finally show ?case by simp
qed simp_all

lemma createBlock_txRoot:
  "txRoot (createBlock env st now ep rcpts txs) =
     calculateMerkleRoot env (map (hashTx env) (transactions (createBlock env st now ep rcpts txs)))"
  by (simp add: createBlock_def Let_def split: prod.splits)

lemma toy_digest: "length (sha256 (nodeEnv n) s) = 32"
  by (simp add: nodeEnv_def toySha_def)

lemma createBlock_coinbase_only:
  "transactions (createBlock (nodeEnv ''n1'') initialState 0 1 [] [coinbaseTx]) = [coinbaseTx]"
  by (simp add: createBlock_def filterTransactions_def filterStep_def coinbaseTx_def Let_def
      initialState_def overlayBalance_def getAccount_def emptyAccount_def double_simps)

lemma showNat_digit: "n < 10 \<Longrightarrow> showNat n = [hexDigit n]"
  by (simp add: showNat.simps)

lemma replicate4: "replicate 4 x = [x, x, x, x]"
  by (simp add: eval_nat_numeral)

lemma leaderMessage_5_0: "leaderMessage 5 0 = ''epoch-5-view-0''"
  by (simp add: leaderMessage_def showNat_digit hexDigit_def)

lemma toy_index_5_0:
  "beUint (take 4 (sha256 (nodeEnv ''n1'') ''epoch-5-view-0'')) mod 3 = 2"
  by (simp add: nodeEnv_def toySha_def beUint_def replicate4)

lemma allNodes_three:
  "allNodes (nodeEnv ''n1'') (stateWithPeers [''n2'', ''n3'']) = [''n1'', ''n2'', ''n3'']"
  by (simp add: allNodes_def nodeEnv_def stateWithPeers_def initialState_def peerAt_def)

section \<open>Lemmas on the ledger\<close>

lemma initial_effectivenessUpdates:
  "calculateEffectivenessUpdates (nodeEnv ''n1'') initialState [] = [(''addr-n1'', 0)]"
  by (simp add: calculateEffectivenessUpdates_def effectivenessStep_def nodeAddresses_def
      currentEff_def nodeEnv_def initialState_def)

lemma createBlock_fields:
  "transactions (createBlock env st now ep rcpts txs) = fst (filterTransactions (accounts st) txs)"
  "rewards (createBlock env st now ep rcpts txs) =
     calculateRewards (calculateEffectivenessUpdates env st rcpts)"
  "effectivenessUpdates (createBlock env st now ep rcpts txs) =
     calculateEffectivenessUpdates env st rcpts"
  "receipts (createBlock env st now ep rcpts txs) = rcpts"
  by (simp_all add: createBlock_def Let_def split: prod.splits)

lemma filter_coinbase_only:
  "filterTransactions (accounts initialState) [coinbaseTx] =
     ([coinbaseTx], [(''addr-n1'', 1000)], [])"
  by (simp add: filterTransactions_def filterStep_def coinbaseTx_def Let_def
      initialState_def overlayBalance_def getAccount_def emptyAccount_def double_simps)

lemma faucetBlock_fields:
  "transactions faucetBlock = [coinbaseTx]"
  "rewards faucetBlock = []"
  "effectivenessUpdates faucetBlock = [(''addr-n1'', 0)]"
  "receipts faucetBlock = []"
  unfolding faucetBlock_def createBlock_fields initial_effectivenessUpdates filter_coinbase_only
  by (simp_all add: calculateRewards_def)

lemma applyTransaction_coinbase:
  "applyTransaction [] coinbaseTx =
     [(''coinbase'', \<lparr>balance = - 1000, nonce = 7\<rparr>), (''addr-n1'', \<lparr>balance = 1000, nonce = 0\<rparr>)]"
  by (simp add: applyTransaction_def coinbaseTx_def getAccount_def emptyAccount_def Let_def
      double_simps)

lemma replayTransaction_coinbase:
  "replayTransaction [] coinbaseTx = [(''addr-n1'', \<lparr>balance = 1000, nonce = 0\<rparr>)]"
  by (simp add: replayTransaction_def coinbaseTx_def getAccount_def emptyAccount_def Let_def
      double_simps)

lemma commit_faucet_accounts:
  "accounts (commitBlock (nodeEnv ''n1'') initialState faucetBlock) =
     [(''coinbase'', \<lparr>balance = - 1000, nonce = 7\<rparr>), (''addr-n1'', \<lparr>balance = 1000, nonce = 0\<rparr>)]"
  by (simp add: commitBlock_def Let_def faucetBlock_fields applyEffectiveness_def
      applyTransaction_coinbase initialState_def)

lemma commit_faucet_chain:
  "chain (commitBlock (nodeEnv ''n1'') initialState faucetBlock) = [faucetBlock]"
  by (simp add: commitBlock_def Let_def faucetBlock_fields applyEffectiveness_def initialState_def)

lemma accounts_applyEffectiveness:
  "accounts (foldl (applyEffectiveness env) st us) = accounts st"
  by (induction us arbitrary: st) (simp_all add: applyEffectiveness_def)

lemma chain_applyEffectiveness:
  "chain (foldl (applyEffectiveness env) st us) = chain st"
  by (induction us arbitrary: st) (simp_all add: applyEffectiveness_def)

lemma accounts_commitBlock:
  "accounts (commitBlock env st b) =
     foldl applyTransaction (foldl applyReward (accounts st) (rewards b)) (transactions b)"
  by (simp add: commitBlock_def Let_def accounts_applyEffectiveness)

lemma chain_commitBlock: "chain (commitBlock env st b) = chain st @ [b]"
  by (simp add: commitBlock_def Let_def chain_applyEffectiveness)

lemma replayTransaction_no_coinbase:
  "tx_from tx \<noteq> ''coinbase'' \<Longrightarrow> replayTransaction accts tx = applyTransaction accts tx"
  by (simp add: replayTransaction_def applyTransaction_def)

lemma foldl_replay_no_coinbase:
  "list_all (\<lambda>tx. tx_from tx \<noteq> ''coinbase'') txs \<Longrightarrow>
     foldl replayTransaction accts txs = foldl applyTransaction accts txs"
  by (induction txs arbitrary: accts) (simp_all add: replayTransaction_no_coinbase)

lemma replayBlock_commitBlock:
  "coinbaseFree b \<Longrightarrow> replayBlock (accounts st) b = accounts (commitBlock env st b)"
  by (simp add: replayBlock_def accounts_commitBlock coinbaseFree_def foldl_replay_no_coinbase)

lemma chain_commit_all: "chain (foldl (commitBlock env) st bs) = chain st @ bs"
  by (induction bs arbitrary: st) (simp_all add: chain_commitBlock)

lemma replay_commit_all:
  "list_all coinbaseFree bs \<Longrightarrow>
     foldl replayBlock (accounts st) bs = accounts (foldl (commitBlock env) st bs)"
proof (induction bs arbitrary: st)
  case Nil
  show ?case by simp
next
  case (Cons b bs)
  then have "coinbaseFree b" and rest: "list_all coinbaseFree bs"
    by simp_all
  then have "foldl replayBlock (accounts st) (b # bs) =
      foldl replayBlock (accounts (commitBlock env st b)) bs"
    by (simp add: replayBlock_commitBlock[of b st env])
  also have "\<dots> = accounts (foldl (commitBlock env) (commitBlock env st b) bs)"
    using rest by (rule Cons.IH)
  finally show ?case by simp
qed

lemma replay_eq_incremental_without_coinbase:
  assumes "list_all coinbaseFree bs"
  shows "accounts (rebuildStateFromChain env (foldl (commitBlock env) initialState bs))
    = accounts (foldl (commitBlock env) initialState bs)"
proof -
  have "chain (foldl (commitBlock env) initialState bs) = bs"
    by (simp add: chain_commit_all initialState_def)
  moreover have "foldl replayBlock [] bs = accounts (foldl (commitBlock env) initialState bs)"
    using replay_commit_all[OF assms, of initialState env] by (simp add: initialState_def)
  ultimately show ?thesis
    by (simp add: rebuildStateFromChain_def)
qed


section \<open>Lemmas on the concrete blocks\<close>

lemma length_digestHex: "length (digestHex bs) = 2 * length bs"
  by (induction bs) (simp_all add: digestHex_def hexByte_def)

lemma length_toy_hash: "length (hashBlockData (nodeEnv n) d) = 64"
  by (simp add: hashBlockData_def hash_def length_digestHex toy_digest)

lemma hashBlockData_nodeEnv: "hashBlockData (nodeEnv a) d = hashBlockData (nodeEnv b) d"
  by (simp add: hashBlockData_def hash_def nodeEnv_def)

lemma createBlock_seal:
  "bhash (createBlock env st now ep rcpts txs) =
     hashBlockData env (blockDataOf (createBlock env st now ep rcpts txs))"
  "leaderSignature (createBlock env st now ep rcpts txs) =
     sign env (bhash (createBlock env st now ep rcpts txs))"
  "leaderPubKey (createBlock env st now ep rcpts txs) = publicKeyPem env"
  "votes (createBlock env st now ep rcpts txs) = []"
  by (simp_all add: createBlock_def blockDataOf_def Let_def split: prod.splits)

lemma toy_signature_valid: "verify (nodeEnv a) msg (sign (nodeEnv n) msg) (publicKeyPem (nodeEnv n))"
  by (simp add: verify_def sign_def nodeEnv_def toyParseKey_def toyVerify_def)


lemma electLeader_index:
  assumes "4 \<le> length (sha256 env (leaderMessage E (currentView st)))"
  shows "electLeader env st E =
     Some (allNodes env st !
       (beUint (take 4 (sha256 env (leaderMessage E (currentView st))))
          mod length (allNodes env st)))"
proof -
  have "length (allNodes env st) \<noteq> 0"
    by (simp add: allNodes_def)
  then show ?thesis
    using parseInt16_digest[OF assms]
    by (simp add: electLeader_def hash_def Let_def)
qed

lemma electLeader_three:
  "electLeader (nodeEnv ''n1'') (stateWithPeers [''n2'', ''n3'']) 5 = Some ''n3''"
proof -
  have view0: "currentView (stateWithPeers [''n2'', ''n3'']) = 0"
    by (simp add: stateWithPeers_def initialState_def)
  have "4 \<le> length (sha256 (nodeEnv ''n1'')
      (leaderMessage 5 (currentView (stateWithPeers [''n2'', ''n3'']))))"
    by (simp add: toy_digest)
  from electLeader_index[OF this] show ?thesis
    by (simp add: view0 leaderMessage_5_0 toy_index_5_0 allNodes_three)
qed

lemma toy_index_5_0_four:
  "beUint (take 4 (sha256 (nodeEnv n) ''epoch-5-view-0'')) mod 4 = 2"
  by (simp add: nodeEnv_def toySha_def beUint_def replicate4)

lemma toy_index_5_0_any:
  "beUint (take 4 (sha256 (nodeEnv n) ''epoch-5-view-0'')) mod 3 = 2"
  by (simp add: nodeEnv_def toySha_def beUint_def replicate4)

lemma electLeader_renamed: "electLeader (nodeEnv ''n2'') renamedView 5 = Some ''zz''"
proof -
  have view0: "currentView renamedView = 0"
    by (simp add: renamedView_def initialState_def)
  have nodes: "allNodes (nodeEnv ''n2'') renamedView = [''n2'', ''n3'', ''zz'']"
    by (simp add: allNodes_def nodeEnv_def renamedView_def peerNamed_def peerAt_def)
  have "4 \<le> length (sha256 (nodeEnv ''n2'') (leaderMessage 5 (currentView renamedView)))"
    by (simp add: toy_digest)
  from electLeader_index[OF this] show ?thesis
    by (simp add: view0 leaderMessage_5_0 toy_index_5_0_any nodes)
qed

lemma electLeader_selfAnnounced:
  "electLeader (nodeEnv ''n1'') selfAnnouncedView 5 = Some ''n2''"
proof -
  have view0: "currentView selfAnnouncedView = 0"
    by (simp add: selfAnnouncedView_def stateWithPeers_def initialState_def)
  have nodes: "allNodes (nodeEnv ''n1'') selfAnnouncedView = [''n1'', ''n1'', ''n2'', ''n3'']"
    by (simp add: allNodes_def nodeEnv_def selfAnnouncedView_def stateWithPeers_def peerAt_def)
  have "4 \<le> length (sha256 (nodeEnv ''n1'') (leaderMessage 5 (currentView selfAnnouncedView)))"
    by (simp add: toy_digest)
  from electLeader_index[OF this] show ?thesis
    by (simp add: view0 leaderMessage_5_0 toy_index_5_0_four nodes)
qed

lemma electLeader_reordered: "electLeader (nodeEnv ''n1'') reorderedView 5 = Some ''n3''"
proof -
  have view0: "currentView reorderedView = 0"
    by (simp add: reorderedView_def initialState_def)
  have nodes: "allNodes (nodeEnv ''n1'') reorderedView = [''n1'', ''n2'', ''n3'']"
    by (simp add: allNodes_def nodeEnv_def reorderedView_def peerNamed_def peerAt_def)
  have "4 \<le> length (sha256 (nodeEnv ''n1'') (leaderMessage 5 (currentView reorderedView)))"
    by (simp add: toy_digest)
  from electLeader_index[OF this] show ?thesis
    by (simp add: view0 leaderMessage_5_0 toy_index_5_0_any nodes)
qed

lemma nodeAddresses_reordered:
  "nodeAddresses (nodeEnv ''n1'') reorderedView =
     [(''n1'', ''addr-n1''), (''n2'', ''zaddr''), (''n3'', ''addr-n3'')]"
  by (simp add: nodeAddresses_def nodeEnv_def reorderedView_def initialState_def peerNamed_def
      peerAt_def falsy_def)

lemma nodeAddresses_renamed:
  "nodeAddresses (nodeEnv ''n2'') renamedView =
     [(''n2'', ''addr-n2''), (''zz'', ''addr-n1''), (''n3'', ''addr-n3'')]"
  by (simp add: nodeAddresses_def nodeEnv_def renamedView_def initialState_def peerNamed_def
      peerAt_def falsy_def)

lemma nodeAddresses_three:
  "nodeAddresses (nodeEnv ''n1'') (stateWithPeers [''n2'', ''n3'']) =
     [(''n1'', ''addr-n1''), (''n2'', ''addr-n2''), (''n3'', ''addr-n3'')]"
  by (simp add: nodeAddresses_def nodeEnv_def stateWithPeers_def initialState_def peerAt_def
      falsy_def)

lemma electLeaderByAddress_reordered:
  "electLeaderByAddress (nodeEnv ''n1'') reorderedView 5 = Some ''zaddr''"
proof -
  have view0: "currentView reorderedView = 0"
    by (simp add: reorderedView_def initialState_def)
  have msg: "''epoch-'' @ showNat 5 @ ''-view-'' @ showNat 0 = ''epoch-5-view-0''"
    by (simp add: showNat_digit hexDigit_def)
  have sorted_addresses:
    "sort (knownAddresses (nodeEnv ''n1'') reorderedView) = [''addr-n1'', ''addr-n3'', ''zaddr'']"
    by (simp add: knownAddresses_def nodeAddresses_reordered)
  have "4 \<le> length (sha256 (nodeEnv ''n1'') ''epoch-5-view-0'')"
    by (simp add: toy_digest)
  from parseInt16_digest[OF this] show ?thesis
    unfolding electLeaderByAddress_def view0 msg sorted_addresses hash_def
    by (simp add: toy_index_5_0_any)
qed

lemma underVotedBlock_valid:
  "bhash underVotedBlock = hashBlockData (nodeEnv ''n1'') (blockDataOf underVotedBlock)"
  "verify (nodeEnv ''n1'') (bhash underVotedBlock) (leaderSignature underVotedBlock)
     (leaderPubKey underVotedBlock)"
  "length (votes underVotedBlock) = 2"
proof -
  let ?b = "createBlock (nodeEnv ''n2'') (stateWithPeers [''n1'', ''n3'', ''n4'']) 0 1 [] []"
  have d: "blockDataOf underVotedBlock = blockDataOf ?b"
    by (simp add: underVotedBlock_def blockDataOf_def)
  have h: "bhash underVotedBlock = bhash ?b"
    by (simp add: underVotedBlock_def)
  show "bhash underVotedBlock = hashBlockData (nodeEnv ''n1'') (blockDataOf underVotedBlock)"
    unfolding d h createBlock_seal(1) by (rule hashBlockData_nodeEnv)
  have "leaderSignature underVotedBlock = sign (nodeEnv ''n2'') (bhash underVotedBlock)"
    "leaderPubKey underVotedBlock = publicKeyPem (nodeEnv ''n2'')"
    by (simp_all add: underVotedBlock_def createBlock_seal)
  then show "verify (nodeEnv ''n1'') (bhash underVotedBlock) (leaderSignature underVotedBlock)
     (leaderPubKey underVotedBlock)"
    by (simp add: toy_signature_valid)
  show "length (votes underVotedBlock) = 2"
    by (simp add: underVotedBlock_def)
qed

lemma forged_checkEquivocation:
  "checkEquivocation (stateWithPeers [''n2'', ''n3'']) forgedBlock =
     (None, (stateWithPeers [''n2'', ''n3''])\<lparr>seenProposals := [(5, [(''bogus'', forgedBlock)])]\<rparr>)"
  by (simp add: checkEquivocation_def stateWithPeers_def initialState_def forgedBlock_def Let_def)

section \<open>Lemmas on equivocation and slashing\<close>

lemma verify_addressOfKey:
  "verify env msg sig pem \<Longrightarrow> \<exists>addr. addressOfKey env pem = Some addr"
  by (auto simp: verify_def addressOfKey_def split: option.splits)

lemma checkEquivocation_detects:
  assumes seen: "map_of (seenProposals st) (epoch b2) = Some ps"
    and held: "(h1, b1) \<in> set ps"
    and same_leader: "leader b1 = leader b2"
    and differ: "h1 \<noteq> bhash b2"
  shows "\<exists>hb. checkEquivocation st b2 =
      (Some \<lparr>ev_block1 = snd hb, ev_block2 = b2, ev_leader = leader b2, ev_epoch = epoch b2\<rparr>, st)
      \<and> hb \<in> set ps \<and> conflicts b2 hb"
proof -
  have "conflicts b2 (h1, b1)"
    using same_leader differ by (simp add: conflicts_def)
  with held have "find (conflicts b2) ps \<noteq> None"
    by (auto simp: find_None_iff)
  then obtain hb where f: "find (conflicts b2) ps = Some hb"
    by auto
  then have "hb \<in> set ps" "conflicts b2 hb"
    by (auto simp: find_Some_iff)
  moreover have "checkEquivocation st b2 =
      (Some \<lparr>ev_block1 = snd hb, ev_block2 = b2, ev_leader = leader b2, ev_epoch = epoch b2\<rparr>, st)"
    using seen f by (simp add: checkEquivocation_def Let_def)
  ultimately show ?thesis by blast
qed

lemma slashNode_fresh:
  assumes "addressOfKey env pem = Some addr" "addr \<notin> set (slashedNodes st)"
  shows "slashEvents (slashNode env st pem) = slashEvents st + 1"
    and "slashedNodes (slashNode env st pem) = slashedNodes st @ [addr]"
    and "balance (getAccount (accounts (slashNode env st pem)) addr) =
         dsub (balance (getAccount (accounts st) addr))
           (min (balance (getAccount (accounts st) addr)) slashAmountConfig)"
    and "a \<noteq> addr \<Longrightarrow> map_of (accounts (slashNode env st pem)) a = map_of (accounts st) a"
    and "nonce (getAccount (accounts (slashNode env st pem)) addr) = nonce (getAccount (accounts st) addr)"
    and "proposedBlock (slashNode env st pem) = proposedBlock st"
  using assms
  by (auto simp: slashNode_def Let_def getAccount_def emptyAccount_def slashAmountConfig_def
      update_conv' dsub_def roundDouble_0_1 split: option.splits)

lemma slashNode_again:
  assumes "addressOfKey env pem = Some addr" "addr \<in> set (slashedNodes st)"
  shows "slashNode env st pem = st"
  using assms by (simp add: slashNode_def)

lemma length_alist_update:
  "length (AList.update k v al) = (if k \<in> fst ` set al then length al else Suc (length al))"
  by (induction al) auto

lemma slashNode_seenProposals: "seenProposals (slashNode env st pem) = seenProposals st"
  by (simp add: slashNode_def Let_def split: option.splits)

lemma handleBlockProposal_seenProposals:
  "seenProposals (snd (handleBlockProposal env st b)) = seenProposals (snd (checkEquivocation st b))"
  by (simp add: handleBlockProposal_def slashNode_seenProposals
      split: prod.splits option.splits)

lemma checkEquivocation_files:
  assumes first: "fst (checkEquivocation st b) = None"
    and window: "length (seenProposals st) < 10
      \<or> (epoch b \<in> fst ` set (seenProposals st) \<and> length (seenProposals st) \<le> 10)
      \<or> (\<exists>e \<in> fst ` set (seenProposals st). e < epoch b)"
  shows "held (snd (checkEquivocation st b)) b"
proof -
  define seen1 where "seen1 =
    (if map_of (seenProposals st) (epoch b) = None
     then AList.update (epoch b) [] (seenProposals st) else seenProposals st)"
  define ps where "ps = (case map_of seen1 (epoch b) of Some ps \<Rightarrow> ps | None \<Rightarrow> [])"
  define seen2 where "seen2 = AList.update (epoch b) (AList.update (bhash b) b ps) seen1"
  define seen3 where "seen3 =
    (if length seen2 > 10 then AList.delete (Min (set (map fst seen2))) seen2 else seen2)"
  have none: "find (conflicts b) ps = None"
    using first unfolding checkEquivocation_def Let_def seen1_def[symmetric] ps_def[symmetric]
    by (auto split: option.splits)
  then have result: "seenProposals (snd (checkEquivocation st b)) = seen3"
    unfolding checkEquivocation_def Let_def seen1_def[symmetric] ps_def[symmetric]
      seen2_def[symmetric] seen3_def[symmetric]
    by simp
  have keys1: "fst ` set seen1 = insert (epoch b) (fst ` set (seenProposals st))"
    unfolding seen1_def by (auto simp: dom_update map_of_eq_None_iff)
  have len1: "length seen1 =
      (if epoch b \<in> fst ` set (seenProposals st) then length (seenProposals st)
       else Suc (length (seenProposals st)))"
    unfolding seen1_def by (simp add: length_alist_update map_of_eq_None_iff)
  have keys2: "fst ` set seen2 = insert (epoch b) (fst ` set (seenProposals st))"
    unfolding seen2_def by (auto simp: dom_update keys1)
  have len2: "length seen2 = length seen1"
    unfolding seen2_def by (simp add: length_alist_update keys1)
  have filed2: "map_of seen2 (epoch b) = Some (AList.update (bhash b) b ps)"
    unfolding seen2_def by (simp add: update_conv')
  have filed3: "map_of seen3 (epoch b) = Some (AList.update (bhash b) b ps)"
  proof (cases "length seen2 > 10")
    case False
    then show ?thesis by (simp add: seen3_def filed2)
  next
    case True
    with len1 len2 window obtain e
      where e: "e \<in> fst ` set (seenProposals st)" "e < epoch b"
      by (auto split: if_splits)
    have "Min (fst ` set seen2) \<le> e"
      using e(1) by (intro Min_le) (simp_all add: keys2)
    with e(2) have "Min (set (map fst seen2)) \<noteq> epoch b" by simp
    with True show ?thesis by (simp add: seen3_def delete_conv' filed2)
  qed
  show ?thesis
    unfolding held_def result by (simp add: filed3 update_conv')
qed

lemma handleBlockProposal_files:
  assumes "fst (checkEquivocation st b) = None"
    and "length (seenProposals st) < 10
      \<or> (epoch b \<in> fst ` set (seenProposals st) \<and> length (seenProposals st) \<le> 10)
      \<or> (\<exists>e \<in> fst ` set (seenProposals st). e < epoch b)"
  shows "held (snd (handleBlockProposal env st b)) b"
  using checkEquivocation_files[OF assms]
  by (simp add: held_def handleBlockProposal_seenProposals)

lemma held_detects:
  assumes held: "held st b1"
    and same_epoch: "epoch b2 = epoch b1"
    and same_leader: "leader b2 = leader b1"
    and differ: "bhash b2 \<noteq> bhash b1"
  shows "\<exists>ps hb. map_of (seenProposals st) (epoch b2) = Some ps
      \<and> checkEquivocation st b2 =
          (Some \<lparr>ev_block1 = snd hb, ev_block2 = b2, ev_leader = leader b2, ev_epoch = epoch b2\<rparr>, st)
      \<and> hb \<in> set ps \<and> conflicts b2 hb"
proof -
  from held obtain ps where ps: "map_of (seenProposals st) (epoch b2) = Some ps"
    and filed: "map_of ps (bhash b1) = Some b1"
    by (auto simp: held_def same_epoch split: option.splits)
  from filed have "(bhash b1, b1) \<in> set ps" by (rule map_of_SomeD)
  from checkEquivocation_detects[OF ps this] same_leader differ ps show ?thesis
    by (metis (no_types))
qed

lemma addressOfKey_explicit:
  "addressOfKey env pem = Some addr \<longleftrightarrow>
     (\<exists>k. parseKey env pem = Some k \<and> addr = take 40 (digestHex (sha256 env k)))"
  by (auto simp: addressOfKey_def hash_def split: option.splits)

lemma observerBase_fields:
  "seenProposals observerBase = []"
  "accounts observerBase = [(n2Address, \<lparr>balance = 800, nonce = 3\<rparr>)]"
  "slashedNodes observerBase = []"
  "slashEvents observerBase = 0"
  "chain observerBase = []"
  by (simp_all add: observerBase_def stateWithPeers_def initialState_def)

lemma observerState_fields:
  "seenProposals observerState = [(5, [(''aaaa'', equivocatingBlock ''aaaa'')])]"
  "accounts observerState = [(n2Address, \<lparr>balance = 800, nonce = 3\<rparr>)]"
  "slashedNodes observerState = []"
  "slashEvents observerState = 0"
  by (simp_all add: observerState_def observerBase_def handleBlockProposal_def
      checkEquivocation_def Let_def
      stateWithPeers_def initialState_def equivocatingBlock_def lastHash_def
      split: prod.splits)

lemma equivocating_address:
  "addressOfKey (nodeEnv ''n1'') (leaderPubKey (equivocatingBlock h)) = Some n2Address"
  by (simp add: addressOfKey_def equivocatingBlock_def n2Address_def nodeEnv_def toyParseKey_def)

text \<open>A proposal that extends the local head, carries no receipts and conflicts with none.\<close>

lemma handleBlockProposal_voted:
  assumes "checkEquivocation st b = (None, st1)"
    and "receipts b = []" and "previousHash b = lastHash st1"
  shows "handleBlockProposal env st b =
     (Voted \<lparr>v_epoch = epoch b, v_blockHash = bhash b, v_voter = NODE_NAME env,
             v_voterPubKey = publicKeyPem env, v_signature = sign env (bhash b)\<rparr>,
      st1\<lparr>proposedBlock := Some b\<rparr>)"
  using assms by (simp add: handleBlockProposal_def)

lemma flooded_fields:
  "seenProposals floodedState =
     map (\<lambda>e. (e, [(''cccc'', laterProposal e)])) [6, 7, 8, 9, 10, 11, 12, 13, 14, 15]"
  "accounts floodedState = [(n2Address, \<lparr>balance = 800, nonce = 3\<rparr>)]"
  "slashedNodes floodedState = []"
  "slashEvents floodedState = 0"
  "chain floodedState = []"
  by (simp_all add: floodedState_def handleBlockProposal_def checkEquivocation_def Let_def
      laterProposal_def observerBase_def stateWithPeers_def initialState_def lastHash_def)

lemma flooded_evicts:
  assumes "seenProposals st = seenProposals floodedState"
  shows "checkEquivocation st (equivocatingBlock h) = (None, st)"
proof -
  have e: "epoch (equivocatingBlock h) = 5"
    by (simp add: equivocatingBlock_def)
  have "checkEquivocation st (equivocatingBlock h)
      = (None, st\<lparr>seenProposals := seenProposals floodedState\<rparr>)"
    unfolding checkEquivocation_def e assms flooded_fields(1)
    by (simp add: Let_def)
  moreover have "st\<lparr>seenProposals := seenProposals floodedState\<rparr> = st"
    using assms[symmetric] by simp
  ultimately show ?thesis by simp
qed

section \<open>Lemmas on the transaction filter\<close>

lemma overlayBalance_update:
  "overlayBalance accts (AList.update k v tb) = (overlayBalance accts tb)(k := v)"
  by (rule ext) (simp add: overlayBalance_def update_conv')

lemma overlayNonce_update:
  "overlayNonce accts (AList.update k v tn) = (overlayNonce accts tn)(k := v)"
  by (rule ext) (simp add: overlayNonce_def update_conv')

lemma filterStep_coinbase:
  assumes "tx_from tx = ''coinbase''"
  shows "filterStep accts (v, tb, tn) tx =
     (v @ [tx],
      AList.update (tx_to tx) (dadd (overlayBalance accts tb (tx_to tx)) (amount tx)) tb,
      tn)"
  using assms by (simp add: filterStep_def Let_def)

lemma filterStep_rejected:
  assumes "tx_from tx \<noteq> ''coinbase''" "rejects accts tb tn tx"
  shows "filterStep accts (v, tb, tn) tx = (v, tb, tn)"
  using assms by (auto simp: filterStep_def Let_def rejects_def)

lemma filterStep_accepted:
  assumes "tx_from tx \<noteq> ''coinbase''" "\<not> rejects accts tb tn tx"
  shows "filterStep accts (v, tb, tn) tx =
     (v @ [tx],
      AList.update (tx_to tx)
        (dadd (overlayBalance accts
           (AList.update (tx_from tx) (dsub (overlayBalance accts tb (tx_from tx)) (amount tx)) tb)
           (tx_to tx)) (amount tx))
        (AList.update (tx_from tx) (dsub (overlayBalance accts tb (tx_from tx)) (amount tx)) tb),
      AList.update (tx_from tx) (tx_nonce tx) tn)"
  using assms by (auto simp: filterStep_def Let_def rejects_def)

lemma filterStep_cases:
  "filterStep accts fs tx = fs \<or> validTxsOf (filterStep accts fs tx) = validTxsOf fs @ [tx]"
  by (cases fs) (auto simp: filterStep_def Let_def validTxsOf_def)

lemma filterStep_nonce_floor:
  assumes "\<bar>n\<bar> < 2 ^ 53" "n \<le> overlayNonce accts (noncesOf fs) a"
  shows "n \<le> overlayNonce accts (noncesOf (filterStep accts fs tx)) a"
proof (cases fs)
  case (fields v tb tn)
  have "n < dadd (overlayNonce accts tn a) 1"
    using assms unfolding dadd_def fields noncesOf_def by (intro next_nonce_greater) simp_all
  then show ?thesis
    using assms(2) unfolding fields
    by (auto simp: filterStep_def Let_def noncesOf_def overlayNonce_update)
qed

lemma foldl_filterStep_nonce_floor:
  assumes "\<bar>n\<bar> < 2 ^ 53" "n \<le> overlayNonce accts (noncesOf fs) a"
  shows "n \<le> overlayNonce accts (noncesOf (foldl (filterStep accts) fs txs)) a"
  using assms(2)
proof (induction txs arbitrary: fs)
  case Nil
  then show ?case by simp
next
  case (Cons tx txs)
  from filterStep_nonce_floor[OF assms(1) Cons.prems]
  have "n \<le> overlayNonce accts (noncesOf (filterStep accts fs tx)) a" .
  from Cons.IH[OF this] show ?case by simp
qed

lemma filterStep_kept_nonce:
  assumes "tx_from tx \<noteq> ''coinbase''"
    and "validTxsOf (filterStep accts fs tx) = validTxsOf fs @ [tx]"
  shows "overlayNonce accts (noncesOf (filterStep accts fs tx)) (tx_from tx) = tx_nonce tx"
  using assms
  by (cases fs) (auto simp: filterStep_def Let_def noncesOf_def validTxsOf_def overlayNonce_update
      split: if_splits)

lemma filterStep_stale_nonce:
  assumes "tx_from tx \<noteq> ''coinbase''"
    and "\<bar>tx_nonce tx\<bar> < 2 ^ 53"
    and "tx_nonce tx \<le> overlayNonce accts (noncesOf fs) (tx_from tx)"
  shows "filterStep accts fs tx = fs"
proof (cases fs)
  case (fields v tb tn)
  have "tx_nonce tx < dadd (overlayNonce accts tn (tx_from tx)) 1"
    using assms(2,3) unfolding dadd_def fields noncesOf_def
    by (intro next_nonce_greater) simp_all
  then show ?thesis
    using assms(1) unfolding fields by (simp add: filterStep_def Let_def)
qed

lemma subseq_foldl_filterStep:
  "\<exists>ys. validTxsOf (foldl (filterStep accts) fs txs) = validTxsOf fs @ ys \<and> subseq ys txs"
proof (induction txs arbitrary: fs)
  case Nil
  show ?case by simp
next
  case (Cons tx txs)
  from Cons.IH[of "filterStep accts fs tx"] obtain ys where
    ys: "validTxsOf (foldl (filterStep accts) (filterStep accts fs tx) txs)
        = validTxsOf (filterStep accts fs tx) @ ys" "subseq ys txs"
    by blast
  from filterStep_cases[of accts fs tx] show ?case
  proof
    assume "filterStep accts fs tx = fs"
    with ys show ?thesis by (intro exI[of _ ys]) (simp add: list_emb_Cons)
  next
    assume "validTxsOf (filterStep accts fs tx) = validTxsOf fs @ [tx]"
    with ys show ?thesis by (intro exI[of _ "tx # ys"]) simp
  qed
qed

lemma subseq_filterTransactions: "subseq (validTxsOf (filterTransactions accts txs)) txs"
  using subseq_foldl_filterStep[of accts "([], [], [])" txs]
  by (auto simp: filterTransactions_def validTxsOf_def)

lemma duplicate_rejected:
  assumes sender: "tx_from t2 = tx_from t1" "tx_from t1 \<noteq> ''coinbase''"
    and nonce: "tx_nonce t2 = tx_nonce t1"
    and small: "\<bar>tx_nonce t1\<bar> < 2 ^ 53"
    and kept: "validTxsOf (filterTransactions accts (pre @ [t1]))
               = validTxsOf (filterTransactions accts pre) @ [t1]"
  shows "filterTransactions accts (pre @ [t1] @ mid @ [t2]) = filterTransactions accts (pre @ [t1] @ mid)"
proof -
  let ?fs0 = "filterTransactions accts pre"
  let ?fs1 = "filterStep accts ?fs0 t1"
  let ?fs2 = "foldl (filterStep accts) ?fs1 mid"
  have f1: "filterTransactions accts (pre @ [t1]) = ?fs1"
    by (simp add: filterTransactions_def)
  have f2: "filterTransactions accts (pre @ [t1] @ mid) = ?fs2"
    by (simp add: filterTransactions_def)
  have f3: "filterTransactions accts (pre @ [t1] @ mid @ [t2]) = filterStep accts ?fs2 t2"
    by (simp add: filterTransactions_def)
  have "overlayNonce accts (noncesOf ?fs1) (tx_from t1) = tx_nonce t1"
    using sender(2) kept unfolding f1 by (rule filterStep_kept_nonce)
  then have "tx_nonce t1 \<le> overlayNonce accts (noncesOf ?fs1) (tx_from t1)"
    by simp
  from foldl_filterStep_nonce_floor[OF small this]
  have "tx_nonce t2 \<le> overlayNonce accts (noncesOf ?fs2) (tx_from t2)"
    using sender(1) nonce by simp
  with sender small nonce have "filterStep accts ?fs2 t2 = ?fs2"
    by (intro filterStep_stale_nonce) simp_all
  then show ?thesis
    unfolding f2 f3 .
qed

lemma double_spend_filter:
  "filterTransactions (aliceAccounts 1000) [aliceTx ''bob'' 600 1, aliceTx ''carol'' 600 1] =
     ([aliceTx ''bob'' 600 1], [(''alice'', 400), (''bob'', 600)], [(''alice'', 1)])"
  by (simp add: filterTransactions_def filterStep_def aliceAccounts_def aliceTx_def Let_def
      overlayBalance_def overlayNonce_def getAccount_def emptyAccount_def double_simps)

lemma first_spend_filter:
  "filterTransactions (aliceAccounts 1000) [aliceTx ''bob'' 600 1] =
     ([aliceTx ''bob'' 600 1], [(''alice'', 400), (''bob'', 600)], [(''alice'', 1)])"
  by (simp add: filterTransactions_def filterStep_def aliceAccounts_def aliceTx_def Let_def
      overlayBalance_def overlayNonce_def getAccount_def emptyAccount_def double_simps)

section \<open>Lemmas on view change\<close>

lemma votesNeeded_viewChangeVotes [simp]:
  "votesNeeded (st\<lparr>viewChangeVotes := x\<rparr>) = votesNeeded st"
  by (simp add: votesNeeded_def)

lemma votersOf_fresh:
  "votersOf (if map_of vcv key = None then AList.update key [] vcv else vcv) key = votersOf vcv key"
  by (simp add: votersOf_def update_conv' split: option.splits)

lemma handleViewChange_same_fields:
  assumes "vc_epoch vc2 = vc_epoch vc1" "vc_newView vc2 = vc_newView vc1" "vc_from vc2 = vc_from vc1"
  shows "handleViewChange env st vc2 = handleViewChange env st vc1"
  using assms by (simp add: handleViewChange_def viewChangeKey_def Let_def)

lemma handleViewChange_tally:
  assumes "vc_epoch vc = currentEpoch st" "currentView st < vc_newView vc"
  shows "votersOf (viewChangeVotes (handleViewChange env st vc)) (viewChangeKey vc)
     = setAdd (vc_from vc) (votersOf (viewChangeVotes st) (viewChangeKey vc))"
  using assms
  by (simp add: handleViewChange_def Let_def votersOf_fresh)
     (simp add: votersOf_def update_conv')

lemma handleViewChange_quorum:
  assumes "vc_epoch vc = currentEpoch st" "currentView st < vc_newView vc"
    and "votesNeeded st \<le> length (setAdd (vc_from vc) (votersOf (viewChangeVotes st) (viewChangeKey vc)))"
  shows "currentView (handleViewChange env st vc) = vc_newView vc"
    and "viewChanges (handleViewChange env st vc) = viewChanges st + 1"
    and "proposedBlock (handleViewChange env st vc) = None"
  using assms
  by (simp_all add: handleViewChange_def Let_def votersOf_fresh)

lemma distinct_setAdd: "distinct xs \<Longrightarrow> distinct (setAdd x xs)"
  by (simp add: setAdd_def)

lemma set_setAdd: "set (setAdd x xs) = insert x (set xs)"
  by (auto simp: setAdd_def)

lemma unsigned_key: "viewChangeKey unsignedViewChange = ''7-1''"
  by (simp add: viewChangeKey_def unsignedViewChange_def showNat_digit hexDigit_def)

lemma waiting_quorum: "votesNeeded waitingState = 3"
  by (rule votesNeeded_three) (simp add: waitingState_def stateWithPeers_def)

lemma waiting_tally:
  "setAdd (vc_from unsignedViewChange) (votersOf (viewChangeVotes waitingState) ''7-1'')
     = [''n2'', ''n3'', ''n4'']"
  by (simp add: votersOf_def waitingState_def setAdd_def unsignedViewChange_def)

section \<open>Lemmas on effectiveness\<close>

lemma snd_update_range:
  "list_all (\<lambda>p. P (snd p)) al \<Longrightarrow> P v \<Longrightarrow> list_all (\<lambda>p. P (snd p)) (AList.update k v al)"
  by (induction al) auto

lemma effectivenessStep_unit:
  assumes "list_all (\<lambda>p. 0 \<le> snd p \<and> snd p \<le> 1) updates"
  shows "list_all (\<lambda>p. 0 \<le> snd p \<and> snd p \<le> 1) (effectivenessStep env st rcpts updates nodeId)"
  using assms
  by (auto simp: effectivenessStep_def Let_def split: option.splits
      intro!: snd_update_range[where P = "\<lambda>e. 0 \<le> e \<and> e \<le> (1::real)"])

lemma effectiveness_updates_unit_interval:
  "list_all (\<lambda>p. 0 \<le> snd p \<and> snd p \<le> 1) (calculateEffectivenessUpdates env st rcpts)"
proof -
  have "list_all (\<lambda>p. 0 \<le> snd p \<and> snd p \<le> 1) (foldl (effectivenessStep env st rcpts) acc ns)"
    if "list_all (\<lambda>p. 0 \<le> snd p \<and> snd p \<le> (1::real)) acc" for acc ns
    using that by (induction ns arbitrary: acc) (simp_all add: effectivenessStep_unit)
  from this[of "[]" "NODE_NAME env # map fst (peers st)"] show ?thesis
    unfolding calculateEffectivenessUpdates_def by simp
qed

lemma ramp_addresses:
  "nodeAddresses (nodeEnv ''n1'') (stateWithPeers [''n2'']) = [(''n1'', ''addr-n1''), (''n2'', ''addr-n2'')]"
  by (simp add: nodeAddresses_def nodeEnv_def stateWithPeers_def initialState_def peerAt_def falsy_def)

lemma ramp_currentEff:
  "currentEff (nodeEnv ''n1'') (stateWithPeers [''n2'']) ''n1'' = 0"
  "currentEff (nodeEnv ''n1'') (stateWithPeers [''n2'']) ''n2'' = 0"
  by (simp_all add: currentEff_def nodeEnv_def stateWithPeers_def initialState_def peerAt_def)

section \<open>Claims\<close>

subsection \<open>Merkle root\<close>

text \<open>
  Claim C9. On every sequence of leaf digests (non-empty strings, with a digest function
  of 32 bytes) \<open>calculateMerkleRoot\<close> equals the reference definition
  \<open>merkleRootSpec\<close>: adjacent digests are paired, the last digest of a level of odd
  length is duplicated, the parent is the hash of left followed by right, and levels are
  built until one root remains. The empty sequence has the root of 64 zeros and a single
  digest is its own root; so a block built with no accepted transaction has the all-zero
  \<open>txRoot\<close> and a block with one accepted transaction has that transaction's hash as
  \<open>txRoot\<close>.
\<close>

theorem calculateMerkleRoot_reference:
  assumes digest: "\<And>s. length (sha256 env s) = 32"
    and leaves: "[] \<notin> set leaves"
  shows "calculateMerkleRoot env leaves = merkleRootSpec (hash env) leaves
    \<and> calculateMerkleRoot env [] = replicate 64 CHR ''0''
    \<and> calculateMerkleRoot env [h] = h
    \<and> txRoot (createBlock env st now ep rcpts txs) =
        merkleRootSpec (hash env)
          (map (hashTx env) (transactions (createBlock env st now ep rcpts txs)))
    \<and> (transactions (createBlock env st now ep rcpts txs) = []
         \<longrightarrow> txRoot (createBlock env st now ep rcpts txs) = replicate 64 CHR ''0'')
    \<and> (transactions (createBlock env st now ep rcpts txs) = [tx]
         \<longrightarrow> txRoot (createBlock env st now ep rcpts txs) = hashTx env tx)"
proof -
  have ne: "sha256 env s \<noteq> []" for s
    using digest[of s] by auto
  have "calculateMerkleRoot env leaves = merkleRootSpec (hash env) leaves"
    using ne leaves by (rule merkle_refines)
  moreover have "txRoot (createBlock env st now ep rcpts txs) =
        merkleRootSpec (hash env)
          (map (hashTx env) (transactions (createBlock env st now ep rcpts txs)))"
  proof -
    have "hashTx env t \<noteq> []" for t
      unfolding hashTx_def hash_def by (rule digestHex_nonempty) (rule ne)
    then have "[] \<notin> set (map (hashTx env) (transactions (createBlock env st now ep rcpts txs)))"
      by (metis (no_types) ex_map_conv)
    with ne show ?thesis
      unfolding createBlock_txRoot by (rule merkle_refines)
  qed
  moreover have "transactions (createBlock env st now ep rcpts txs) = []
      \<longrightarrow> txRoot (createBlock env st now ep rcpts txs) = replicate 64 CHR ''0''"
    by (simp add: createBlock_txRoot)
  moreover have "transactions (createBlock env st now ep rcpts txs) = [tx]
      \<longrightarrow> txRoot (createBlock env st now ep rcpts txs) = hashTx env tx"
    by (simp add: createBlock_txRoot)
  ultimately show ?thesis by simp
qed

theorem calculateMerkleRoot_reference_witness:
  "calculateMerkleRoot (nodeEnv ''n1'') [''aa'', ''bb'', ''cc'']
     = merkleRootSpec (hash (nodeEnv ''n1'')) [''aa'', ''bb'', ''cc'']
   \<and> txRoot (createBlock (nodeEnv ''n1'') initialState 0 1 [] [coinbaseTx])
     = hashTx (nodeEnv ''n1'') coinbaseTx"
proof -
  have leaves: "[] \<notin> set [''aa'', ''bb'', ''cc'']"
    by simp
  have digest: "\<And>s. length (sha256 (nodeEnv ''n1'') s) = 32"
    by (rule toy_digest)
  from calculateMerkleRoot_reference[OF digest leaves,
      of _ initialState 0 1 "[]" "[coinbaseTx]" coinbaseTx]
    createBlock_coinbase_only
  show ?thesis by blast
qed

subsection \<open>Leader election\<close>

text \<open>
  Claim C7, as stated, has the election take the sorted list of the known validator
  addresses and return its entry at the index. \<open>electLeader\<close> sorts node names (its
  own \<^verbatim>\<open>NODE_NAME\<close> and the ids under which its peers announced themselves) and
  returns a name. On the node \<^verbatim>\<open>n1\<close> whose peer \<^verbatim>\<open>n2\<close> has the address
  \<^verbatim>\<open>zaddr\<close> the code elects the name \<^verbatim>\<open>n3\<close> (address \<^verbatim>\<open>addr-n3\<close>) where
  the election over addresses, \<open>electLeaderByAddress\<close>, gives \<^verbatim>\<open>zaddr\<close>. Two
  nodes that know the same addresses in the same view elect different leaders when one
  of them knows a validator under another id (\<^verbatim>\<open>n3\<close> against \<^verbatim>\<open>zz\<close>, whose
  address is \<^verbatim>\<open>addr-n1\<close>). And the list is not a set: a node that has received an
  announcement under its own id counts itself twice and elects \<^verbatim>\<open>n2\<close> where a
  node with the same set of names elects \<^verbatim>\<open>n3\<close>.
\<close>

theorem electLeader_sorts_names:
  "electLeader (nodeEnv ''n1'') reorderedView 5 = Some ''n3''
   \<and> map_of (nodeAddresses (nodeEnv ''n1'') reorderedView) ''n3'' = Some ''addr-n3''
   \<and> electLeaderByAddress (nodeEnv ''n1'') reorderedView 5 = Some ''zaddr''
   \<and> currentView renamedView = currentView (stateWithPeers [''n2'', ''n3''])
   \<and> set (knownAddresses (nodeEnv ''n2'') renamedView)
       = set (knownAddresses (nodeEnv ''n1'') (stateWithPeers [''n2'', ''n3'']))
   \<and> electLeader (nodeEnv ''n1'') (stateWithPeers [''n2'', ''n3'']) 5 = Some ''n3''
   \<and> electLeader (nodeEnv ''n2'') renamedView 5 = Some ''zz''
   \<and> map_of (nodeAddresses (nodeEnv ''n2'') renamedView) ''zz'' = Some ''addr-n1''
   \<and> map_of (nodeAddresses (nodeEnv ''n1'') (stateWithPeers [''n2'', ''n3''])) ''n3''
       = Some ''addr-n3''
   \<and> currentView selfAnnouncedView = currentView (stateWithPeers [''n2'', ''n3''])
   \<and> set (NODE_NAME (nodeEnv ''n1'') # map fst (peers selfAnnouncedView))
       = set (NODE_NAME (nodeEnv ''n1'') # map fst (peers (stateWithPeers [''n2'', ''n3''])))
   \<and> electLeader (nodeEnv ''n1'') selfAnnouncedView 5 = Some ''n2''"
proof -
  have views: "currentView renamedView = currentView (stateWithPeers [''n2'', ''n3''])"
    "currentView selfAnnouncedView = currentView (stateWithPeers [''n2'', ''n3''])"
    by (simp_all add: renamedView_def selfAnnouncedView_def stateWithPeers_def)
  have addresses: "set (knownAddresses (nodeEnv ''n2'') renamedView)
       = set (knownAddresses (nodeEnv ''n1'') (stateWithPeers [''n2'', ''n3'']))"
    unfolding knownAddresses_def nodeAddresses_renamed nodeAddresses_three by auto
  have names: "set (NODE_NAME (nodeEnv ''n1'') # map fst (peers selfAnnouncedView))
       = set (NODE_NAME (nodeEnv ''n1'') # map fst (peers (stateWithPeers [''n2'', ''n3''])))"
    by (simp add: selfAnnouncedView_def stateWithPeers_def nodeEnv_def peerAt_def)
  show ?thesis
    unfolding nodeAddresses_renamed nodeAddresses_three nodeAddresses_reordered
      electLeader_reordered electLeaderByAddress_reordered electLeader_renamed
      electLeader_selfAnnounced electLeader_three
    using views addresses names by simp
qed

text \<open>
  Claim C7, amended: leader election is a function of the epoch, the current view and
  the known validator names only. \<open>allNodes\<close> is the sorted list of the node's own
  name and the ids of its peers; the index is the first 4 bytes of the digest of
  \<^verbatim>\<open>epoch-\<close>, the epoch in decimal, \<^verbatim>\<open>-view-\<close> and the view in decimal, read as an
  unsigned number (most significant byte first), modulo the length of that list; the
  leader is the name at that index. (What \<open>showNat\<close> prints is the decimal numeral
  of the number: it reads back as the number, consists of digits and has no leading
  zero. Epochs and views are counters: natural numbers, which a template literal prints
  in plain decimal up to \<open>10 ^ 21\<close>.) Two nodes with the same digest function, the same
  view and the same names (own name plus peer ids, as a collection with multiplicity;
  or as a set, when neither node has a peer entry under its own name) elect the same
  leader for every epoch.
\<close>

theorem electLeader_deterministic:
  assumes digest: "\<And>s. length (sha256 env s) = 32"
    and same_hash: "sha256 env' = sha256 env"
    and same_view: "currentView st' = currentView st"
  shows "sorted (allNodes env st)
    \<and> mset (allNodes env st) = mset (NODE_NAME env # map fst (peers st))
    \<and> electLeader env st E =
        Some (allNodes env st !
          (beUint (take 4 (sha256 env
              (''epoch-'' @ showNat E @ ''-view-'' @ showNat (currentView st))))
             mod length (allNodes env st)))
    \<and> beUint [a, b, c, d] = unat a * 2 ^ 24 + unat b * 2 ^ 16 + unat c * 2 ^ 8 + unat d
    \<and> decimalValue (showNat E) = E
    \<and> (\<forall>ch \<in> set (showNat E). ch \<in> set ''0123456789'')
    \<and> (showNat E = ''0'' \<or> hd (showNat E) \<noteq> CHR ''0'')
    \<and> (mset (NODE_NAME env' # map fst (peers st')) = mset (NODE_NAME env # map fst (peers st))
          \<longrightarrow> electLeader env' st' E = electLeader env st E)
    \<and> (distinct (NODE_NAME env' # map fst (peers st'))
        \<and> distinct (NODE_NAME env # map fst (peers st))
        \<and> set (NODE_NAME env' # map fst (peers st')) = set (NODE_NAME env # map fst (peers st))
          \<longrightarrow> electLeader env' st' E = electLeader env st E)"
proof -
  have len: "length (allNodes env st) \<noteq> 0"
    by (simp add: allNodes_def)
  have four: "4 \<le> length (sha256 env (leaderMessage E (currentView st)))"
    using digest[of "leaderMessage E (currentView st)"] by simp
  have elect: "electLeader env st E =
        Some (allNodes env st !
          (beUint (take 4 (sha256 env
              (''epoch-'' @ showNat E @ ''-view-'' @ showNat (currentView st))))
             mod length (allNodes env st)))"
    using len parseInt16_digest[OF four]
    by (simp add: electLeader_def hash_def Let_def leaderMessage_def)
  have same: "electLeader env' st' E = electLeader env st E"
    if "mset (NODE_NAME env' # map fst (peers st')) = mset (NODE_NAME env # map fst (peers st))"
  proof -
    have nodes: "allNodes env' st' = allNodes env st"
      unfolding allNodes_def using that by (rule sort_mset_cong)
    show ?thesis
      unfolding electLeader_def nodes hash_def same_hash same_view
      using len by simp
  qed
  have same_set: "electLeader env' st' E = electLeader env st E"
    if "distinct (NODE_NAME env' # map fst (peers st'))
        \<and> distinct (NODE_NAME env # map fst (peers st))
        \<and> set (NODE_NAME env' # map fst (peers st')) = set (NODE_NAME env # map fst (peers st))"
  proof -
    from that have
      "mset (NODE_NAME env' # map fst (peers st')) = mset (NODE_NAME env # map fst (peers st))"
      by (metis set_eq_iff_mset_eq_distinct)
    then show ?thesis by (rule same)
  qed
  have srt: "sorted (allNodes env st)"
    unfolding allNodes_def by (rule sorted_sort)
  have ms: "mset (allNodes env st) = mset (NODE_NAME env # map fst (peers st))"
    unfolding allNodes_def by (rule mset_sort)
  have digits: "\<forall>ch \<in> set (showNat E). ch \<in> set ''0123456789''"
    using showNat_digits by blast
  show ?thesis
    using srt ms elect beUint_four[of a b c d] showNat_decimal[of E] digits
      showNat_no_leading_zero[of E] same same_set
    by (intro conjI impI) blast+
qed

theorem electLeader_deterministic_witness:
  "electLeader (nodeEnv ''n2'') (stateWithPeers [''n3'', ''n1'']) 5
     = electLeader (nodeEnv ''n1'') (stateWithPeers [''n2'', ''n3'']) 5
   \<and> electLeader (nodeEnv ''n1'') (stateWithPeers [''n2'', ''n3'']) 5
     = Some ([''n1'', ''n2'', ''n3''] !
         (beUint (take 4 (sha256 (nodeEnv ''n1'') ''epoch-5-view-0'')) mod 3))
   \<and> electLeader (nodeEnv ''n1'') (stateWithPeers [''n2'', ''n3'']) 5 = Some ''n3''"
proof -
  have digest: "\<And>s. length (sha256 (nodeEnv ''n1'') s) = 32"
    by (rule toy_digest)
  have same_hash: "sha256 (nodeEnv ''n2'') = sha256 (nodeEnv ''n1'')"
    by (simp add: nodeEnv_def)
  have same_view:
    "currentView (stateWithPeers [''n3'', ''n1'']) = currentView (stateWithPeers [''n2'', ''n3''])"
    by (simp add: stateWithPeers_def)
  have same_validators:
    "distinct (NODE_NAME (nodeEnv ''n2'') # map fst (peers (stateWithPeers [''n3'', ''n1''])))
     \<and> distinct (NODE_NAME (nodeEnv ''n1'') # map fst (peers (stateWithPeers [''n2'', ''n3''])))
     \<and> set (NODE_NAME (nodeEnv ''n2'') # map fst (peers (stateWithPeers [''n3'', ''n1''])))
       = set (NODE_NAME (nodeEnv ''n1'') # map fst (peers (stateWithPeers [''n2'', ''n3''])))"
    by (auto simp: stateWithPeers_def nodeEnv_def peerAt_def)
  have view0: "currentView (stateWithPeers [''n2'', ''n3'']) = 0"
    by (simp add: stateWithPeers_def initialState_def)
  have msg: "''epoch-'' @ showNat 5 @ ''-view-'' @ showNat 0 = ''epoch-5-view-0''"
    by (simp add: showNat_digit hexDigit_def)
  from electLeader_deterministic[OF digest same_hash same_view, of 5] same_validators
  have "electLeader (nodeEnv ''n2'') (stateWithPeers [''n3'', ''n1'']) 5
      = electLeader (nodeEnv ''n1'') (stateWithPeers [''n2'', ''n3'']) 5"
    and "electLeader (nodeEnv ''n1'') (stateWithPeers [''n2'', ''n3'']) 5 =
        Some (allNodes (nodeEnv ''n1'') (stateWithPeers [''n2'', ''n3'']) !
          (beUint (take 4 (sha256 (nodeEnv ''n1'')
              (''epoch-'' @ showNat 5 @ ''-view-''
                 @ showNat (currentView (stateWithPeers [''n2'', ''n3''])))))
             mod length (allNodes (nodeEnv ''n1'') (stateWithPeers [''n2'', ''n3'']))))"
    by blast+
  then show ?thesis
    unfolding view0 msg allNodes_three by (simp add: toy_index_5_0)
qed

subsection \<open>Replay and incremental commit\<close>

text \<open>
  Claim C1 (replay yields the account map of the incremental commits) fails on the
  chain that holds the faucet block: committing it with \<open>commitBlock\<close> runs
  \<open>applyTransaction\<close> on the coinbase transaction, which debits an account keyed
  \<^verbatim>\<open>coinbase\<close>; replaying the same chain with \<open>rebuildStateFromChain\<close> only credits
  the recipient. The two account maps differ in their set of addresses. (Lemma
  \<open>replay_eq_incremental_without_coinbase\<close> shows that the two agree on every chain
  without coinbase transactions.)
\<close>

theorem replay_differs_from_incremental:
  "accounts (commitBlock (nodeEnv ''n1'') initialState faucetBlock) =
     [(''coinbase'', \<lparr>balance = - 1000, nonce = 7\<rparr>), (''addr-n1'', \<lparr>balance = 1000, nonce = 0\<rparr>)]
   \<and> accounts (rebuildStateFromChain (nodeEnv ''n1'')
        (commitBlock (nodeEnv ''n1'') initialState faucetBlock)) =
     [(''addr-n1'', \<lparr>balance = 1000, nonce = 0\<rparr>)]"
  by (simp add: commit_faucet_accounts commit_faucet_chain rebuildStateFromChain_def
      replayBlock_def faucetBlock_fields replayTransaction_coinbase)

subsection \<open>Coinbase transactions\<close>

text \<open>
  Claim C6 (a coinbase transaction never debits an account, on the commit path and on
  the replay path) fails on the commit path: \<open>applyTransaction\<close>, which
  \<open>commitBlock\<close> runs on every transaction, has no coinbase case, so it creates an
  account keyed \<^verbatim>\<open>coinbase\<close>, debits it and sets its nonce. The replay path
  (\<open>replayTransaction\<close>) credits the recipient only.
\<close>

theorem coinbase_debited_on_commit:
  "map_of (applyTransaction [] coinbaseTx) ''coinbase'' = Some \<lparr>balance = - 1000, nonce = 7\<rparr>
   \<and> map_of (accounts (commitBlock (nodeEnv ''n1'') initialState faucetBlock)) ''coinbase''
       = Some \<lparr>balance = - 1000, nonce = 7\<rparr>
   \<and> map_of (replayTransaction [] coinbaseTx) ''coinbase'' = None
   \<and> map_of (replayTransaction [] coinbaseTx) ''addr-n1'' = Some \<lparr>balance = 1000, nonce = 0\<rparr>"
  by (simp add: applyTransaction_coinbase replayTransaction_coinbase commit_faucet_accounts)

subsection \<open>Committed blocks and quorum\<close>

text \<open>
  Claim C2 (a committed block is appended only if its vote count is at least the quorum
  of the receiver's validator set) fails: \<open>handleCommittedBlock\<close> compares the vote
  count with the constant 2, not with \<open>votesNeeded\<close>. A receiver that knows three
  peers (four validators, quorum 3) appends a correctly hashed and signed block that
  carries two votes.
\<close>

theorem committed_block_below_quorum_accepted:
  "votesNeeded (stateWithPeers [''n2'', ''n3'', ''n4'']) = 3
   \<and> length (votes underVotedBlock) = 2
   \<and> chain (stateWithPeers [''n2'', ''n3'', ''n4'']) = []
   \<and> chain (handleCommittedBlock (nodeEnv ''n1'') (stateWithPeers [''n2'', ''n3'', ''n4''])
        underVotedBlock) = [underVotedBlock]"
proof -
  have q: "votesNeeded (stateWithPeers [''n2'', ''n3'', ''n4'']) = 3"
    by (rule votesNeeded_three) (simp add: stateWithPeers_def)
  have c: "chain (stateWithPeers [''n2'', ''n3'', ''n4'']) = []"
    by (simp add: stateWithPeers_def initialState_def)
  have "handleCommittedBlock (nodeEnv ''n1'') (stateWithPeers [''n2'', ''n3'', ''n4''])
        underVotedBlock
     = commitBlock (nodeEnv ''n1'') (stateWithPeers [''n2'', ''n3'', ''n4'']) underVotedBlock"
    using underVotedBlock_valid
    by (simp add: handleCommittedBlock_def c)
  then show ?thesis
    using q c underVotedBlock_valid(3) by (simp add: chain_commitBlock)
qed

subsection \<open>Proposal validation\<close>

text \<open>
  Claim C3 (a follower votes only for a proposal whose leader is the elected one, whose
  hash and leader signature verify and whose transactions pass the filter) fails:
  \<open>handleBlockProposal\<close> never calls \<open>validateBlock\<close>, and it checks hash and
  signature only when the block's previous hash differs from the local head. On a
  block that extends the local head the follower \<^verbatim>\<open>n1\<close> votes although the block
  names \<^verbatim>\<open>n2\<close> as leader where \<^verbatim>\<open>n3\<close> is elected, its hash and signature do
  not verify and its transaction overdraws; \<open>validateBlock\<close> rejects the same block.
\<close>

theorem proposal_accepted_without_validation:
  "fst (handleBlockProposal (nodeEnv ''n1'') (stateWithPeers [''n2'', ''n3'']) forgedBlock) =
     Voted \<lparr>v_epoch = 5, v_blockHash = ''bogus'', v_voter = ''n1'', v_voterPubKey = ''pem-n1'',
            v_signature = ''sig-n1-bogus''\<rparr>
   \<and> proposedBlock (snd (handleBlockProposal (nodeEnv ''n1'') (stateWithPeers [''n2'', ''n3''])
        forgedBlock)) = Some forgedBlock
   \<and> leader forgedBlock = ''n2''
   \<and> electLeader (nodeEnv ''n1'') (stateWithPeers [''n2'', ''n3'']) (epoch forgedBlock) = Some ''n3''
   \<and> bhash forgedBlock \<noteq> hashBlockData (nodeEnv ''n1'') (blockDataOf forgedBlock)
   \<and> \<not> verify (nodeEnv ''n1'') (bhash forgedBlock) (leaderSignature forgedBlock)
         (leaderPubKey forgedBlock)
   \<and> \<not> validateTransaction (stateWithPeers [''n2'', ''n3'']) overdraftTx
   \<and> \<not> validateBlock (nodeEnv ''n1'') (stateWithPeers [''n2'', ''n3'']) forgedBlock"
proof -
  let ?st = "stateWithPeers [''n2'', ''n3'']"
  have prev: "previousHash forgedBlock =
      lastHash (?st\<lparr>seenProposals := [(5, [(''bogus'', forgedBlock)])]\<rparr>)"
    by (simp add: forgedBlock_def lastHash_def stateWithPeers_def initialState_def)
  have rc: "verifyBlockReceipts (receipts forgedBlock) = None"
    by (simp add: forgedBlock_def)
  have handled: "handleBlockProposal (nodeEnv ''n1'') ?st forgedBlock =
      (Voted \<lparr>v_epoch = epoch forgedBlock, v_blockHash = bhash forgedBlock,
              v_voter = NODE_NAME (nodeEnv ''n1''), v_voterPubKey = publicKeyPem (nodeEnv ''n1''),
              v_signature = sign (nodeEnv ''n1'') (bhash forgedBlock)\<rparr>,
       ?st\<lparr>seenProposals := [(5, [(''bogus'', forgedBlock)])], proposedBlock := Some forgedBlock\<rparr>)"
    unfolding handleBlockProposal_def forged_checkEquivocation
    using prev rc by simp
  have leader: "electLeader (nodeEnv ''n1'') ?st (epoch forgedBlock) = Some ''n3''"
    using electLeader_three by (simp add: forgedBlock_def)
  have "length (bhash forgedBlock) \<noteq> length (hashBlockData (nodeEnv ''n1'') (blockDataOf forgedBlock))"
    unfolding length_toy_hash by (simp add: forgedBlock_def)
  then have hash: "bhash forgedBlock \<noteq> hashBlockData (nodeEnv ''n1'') (blockDataOf forgedBlock)"
    by auto
  have sig: "\<not> verify (nodeEnv ''n1'') (bhash forgedBlock) (leaderSignature forgedBlock)
         (leaderPubKey forgedBlock)"
    by (simp add: verify_def forgedBlock_def nodeEnv_def toyParseKey_def)
  have tx: "\<not> validateTransaction ?st overdraftTx"
    by (simp add: validateTransaction_def overdraftTx_def stateWithPeers_def initialState_def
        getAccount_def emptyAccount_def)
  have vb: "\<not> validateBlock (nodeEnv ''n1'') ?st forgedBlock"
    using leader by (simp add: validateBlock_def forgedBlock_def)
  have l: "leader forgedBlock = ''n2''"
    by (simp add: forgedBlock_def)
  from handled have
    "fst (handleBlockProposal (nodeEnv ''n1'') ?st forgedBlock) =
       Voted \<lparr>v_epoch = 5, v_blockHash = ''bogus'', v_voter = ''n1'', v_voterPubKey = ''pem-n1'',
            v_signature = ''sig-n1-bogus''\<rparr>"
    "proposedBlock (snd (handleBlockProposal (nodeEnv ''n1'') ?st forgedBlock)) = Some forgedBlock"
    by (simp_all add: forgedBlock_def nodeEnv_def sign_def)
  with l leader hash sig tx vb show ?thesis
    by blast
qed

subsection \<open>Equivocation and slashing\<close>

text \<open>
  Claim C4, as stated, has every observer refuse and slash on the second of two
  conflicting blocks (same leader, same epoch, distinct hashes, valid signatures). The
  equivocation ledger \<open>seenProposals\<close> does not keep every block it has seen: when it
  holds more than 10 epochs, \<open>checkEquivocation\<close> deletes the smallest epoch, which
  is the epoch of the block just filed when that is older than the ten epochs already
  there. An observer that has handled proposals for the epochs 6 to 15 votes for a
  proposal of \<^verbatim>\<open>n2\<close> for epoch 5, then votes for a second proposal of \<^verbatim>\<open>n2\<close>
  for epoch 5 with another hash, and slashes nobody: both blocks are signed under the
  key of \<^verbatim>\<open>n2\<close>, the balance of \<^verbatim>\<open>n2\<close> is still 800 and \<open>slashEvents\<close> is 0.
\<close>

theorem equivocation_outside_window_not_slashed:
  "epoch (equivocatingBlock ''bbbb'') = epoch (equivocatingBlock ''aaaa'')
   \<and> leader (equivocatingBlock ''bbbb'') = leader (equivocatingBlock ''aaaa'')
   \<and> bhash (equivocatingBlock ''bbbb'') \<noteq> bhash (equivocatingBlock ''aaaa'')
   \<and> verify (nodeEnv ''n1'') (bhash (equivocatingBlock ''aaaa''))
       (leaderSignature (equivocatingBlock ''aaaa'')) (leaderPubKey (equivocatingBlock ''aaaa''))
   \<and> verify (nodeEnv ''n1'') (bhash (equivocatingBlock ''bbbb''))
       (leaderSignature (equivocatingBlock ''bbbb'')) (leaderPubKey (equivocatingBlock ''bbbb''))
   \<and> length (seenProposals floodedState) = 10
   \<and> fst (handleBlockProposal (nodeEnv ''n1'') floodedState (equivocatingBlock ''aaaa''))
       = Voted \<lparr>v_epoch = 5, v_blockHash = ''aaaa'', v_voter = ''n1'',
                v_voterPubKey = ''pem-n1'', v_signature = ''sig-n1-aaaa''\<rparr>
   \<and> fst (handleBlockProposal (nodeEnv ''n1'')
         (snd (handleBlockProposal (nodeEnv ''n1'') floodedState (equivocatingBlock ''aaaa'')))
         (equivocatingBlock ''bbbb''))
       = Voted \<lparr>v_epoch = 5, v_blockHash = ''bbbb'', v_voter = ''n1'',
                v_voterPubKey = ''pem-n1'', v_signature = ''sig-n1-bbbb''\<rparr>
   \<and> snd (handleBlockProposal (nodeEnv ''n1'')
         (snd (handleBlockProposal (nodeEnv ''n1'') floodedState (equivocatingBlock ''aaaa'')))
         (equivocatingBlock ''bbbb''))
       = floodedState\<lparr>proposedBlock := Some (equivocatingBlock ''bbbb'')\<rparr>
   \<and> slashEvents (floodedState\<lparr>proposedBlock := Some (equivocatingBlock ''bbbb'')\<rparr>) = 0
   \<and> slashedNodes (floodedState\<lparr>proposedBlock := Some (equivocatingBlock ''bbbb'')\<rparr>) = []
   \<and> accounts (floodedState\<lparr>proposedBlock := Some (equivocatingBlock ''bbbb'')\<rparr>)
       = [(n2Address, \<lparr>balance = 800, nonce = 3\<rparr>)]"
proof -
  let ?env = "nodeEnv ''n1''"
  let ?A = "equivocatingBlock ''aaaa''" and ?B = "equivocatingBlock ''bbbb''"
  let ?st1 = "floodedState\<lparr>proposedBlock := Some ?A\<rparr>"
  have head: "lastHash floodedState = zeroHash" "lastHash ?st1 = zeroHash"
    by (simp_all add: lastHash_def flooded_fields(5))
  have blocks: "receipts (equivocatingBlock h) = []"
    "previousHash (equivocatingBlock h) = zeroHash" for h
    by (simp_all add: equivocatingBlock_def)
  have signed: "verify ?env (bhash (equivocatingBlock h))
       (leaderSignature (equivocatingBlock h)) (leaderPubKey (equivocatingBlock h))" for h
    by (simp add: verify_def equivocatingBlock_def nodeEnv_def toyParseKey_def toyVerify_def)
  have a: "handleBlockProposal ?env floodedState ?A =
      (Voted \<lparr>v_epoch = epoch ?A, v_blockHash = bhash ?A, v_voter = NODE_NAME ?env,
              v_voterPubKey = publicKeyPem ?env, v_signature = sign ?env (bhash ?A)\<rparr>, ?st1)"
    by (rule handleBlockProposal_voted) (simp_all add: flooded_evicts blocks head)
  have b: "handleBlockProposal ?env ?st1 ?B =
      (Voted \<lparr>v_epoch = epoch ?B, v_blockHash = bhash ?B, v_voter = NODE_NAME ?env,
              v_voterPubKey = publicKeyPem ?env, v_signature = sign ?env (bhash ?B)\<rparr>,
       ?st1\<lparr>proposedBlock := Some ?B\<rparr>)"
    by (rule handleBlockProposal_voted) (simp_all add: flooded_evicts blocks head)
  have names: "epoch (equivocatingBlock h) = 5" "bhash (equivocatingBlock h) = h"
    "leader (equivocatingBlock h) = ''n2''"
    "NODE_NAME ?env = ''n1''" "publicKeyPem ?env = ''pem-n1''"
    "sign ?env h = ''sig-n1-'' @ h" for h
    by (simp_all add: equivocatingBlock_def nodeEnv_def sign_def)
  show ?thesis
    unfolding a b fst_conv snd_conv names
    using signed[of "''aaaa''"] signed[of "''bbbb''"]
    by (simp add: flooded_fields names)
qed

text \<open>
  Claim C4, amended. A proposal the observer handles without finding a conflict is
  then in its equivocation ledger (\<open>held\<close>), provided the ledger has room for the
  proposal's epoch: it holds fewer than 10 epochs, or it holds that epoch already, or
  an older one. As long as the block is held, an incoming proposal with the same epoch,
  the same leader and a different hash, signed under the key it carries, is refused by
  \<open>handleBlockProposal\<close> with the evidence, which names a held block of that leader
  with another hash and the incoming block (no vote, the active proposal is
  unchanged), and the address derived from the key the incoming block carries is
  slashed: the address is the first 40 hexadecimal digits of the digest of the parsed
  key. If the address was not slashed before, its balance drops by the minimum of the
  balance and \<open>slashAmountConfig\<close> (500), in double arithmetic, every other account
  and the nonce are unchanged and \<open>slashEvents\<close> grows by one; if it was slashed
  before, the state does not change at all. Afterwards the address is marked as
  slashed, so slashing it again changes nothing.
\<close>

theorem equivocation_slashed_once:
  assumes first: "fst (checkEquivocation st b1) = None"
    and window: "length (seenProposals st) < 10
      \<or> (epoch b1 \<in> fst ` set (seenProposals st) \<and> length (seenProposals st) \<le> 10)
      \<or> (\<exists>e \<in> fst ` set (seenProposals st). e < epoch b1)"
    and same_epoch: "epoch b2 = epoch b1"
    and same_leader: "leader b2 = leader b1"
    and differ: "bhash b2 \<noteq> bhash b1"
    and signed: "verify env (bhash b2) (leaderSignature b2) (leaderPubKey b2)"
  shows "held (snd (handleBlockProposal env st b1)) b1
    \<and> slashAmountConfig = 500
    \<and> (\<forall>st2. held st2 b1 \<longrightarrow>
         (\<exists>k addr ev st'.
            parseKey env (leaderPubKey b2) = Some k
          \<and> addr = take 40 (digestHex (sha256 env k))
          \<and> handleBlockProposal env st2 b2 = (Rejected ''Equivocation detected'' (Some ev), st')
          \<and> ev_block2 ev = b2 \<and> ev_leader ev = leader b2 \<and> ev_epoch ev = epoch b2
          \<and> (\<exists>ps h. map_of (seenProposals st2) (epoch b2) = Some ps
                \<and> (h, ev_block1 ev) \<in> set ps
                \<and> leader (ev_block1 ev) = leader b2 \<and> h \<noteq> bhash b2)
          \<and> proposedBlock st' = proposedBlock st2
          \<and> seenProposals st' = seenProposals st2
          \<and> (addr \<notin> set (slashedNodes st2) \<longrightarrow>
                balance (getAccount (accounts st') addr) =
                  dsub (balance (getAccount (accounts st2) addr))
                    (min (balance (getAccount (accounts st2) addr)) slashAmountConfig)
              \<and> nonce (getAccount (accounts st') addr) = nonce (getAccount (accounts st2) addr)
              \<and> (\<forall>a. a \<noteq> addr \<longrightarrow> map_of (accounts st') a = map_of (accounts st2) a)
              \<and> slashEvents st' = slashEvents st2 + 1)
          \<and> (addr \<in> set (slashedNodes st2) \<longrightarrow> st' = st2)
          \<and> addr \<in> set (slashedNodes st')
          \<and> (\<forall>pem k'. parseKey env pem = Some k' \<and> take 40 (digestHex (sha256 env k')) = addr
                \<longrightarrow> slashNode env st' pem = st')))"
proof -
  have filed: "held (snd (handleBlockProposal env st b1)) b1"
    using first window by (rule handleBlockProposal_files)
  from verify_addressOfKey[OF signed] obtain addr
    where addr: "addressOfKey env (leaderPubKey b2) = Some addr" ..
  then obtain k where k: "parseKey env (leaderPubKey b2) = Some k"
    and addr_k: "addr = take 40 (digestHex (sha256 env k))"
    by (auto simp: addressOfKey_explicit)
  have later: "\<exists>ev st'.
            handleBlockProposal env st2 b2 = (Rejected ''Equivocation detected'' (Some ev), st')
          \<and> ev_block2 ev = b2 \<and> ev_leader ev = leader b2 \<and> ev_epoch ev = epoch b2
          \<and> (\<exists>ps h. map_of (seenProposals st2) (epoch b2) = Some ps
                \<and> (h, ev_block1 ev) \<in> set ps
                \<and> leader (ev_block1 ev) = leader b2 \<and> h \<noteq> bhash b2)
          \<and> proposedBlock st' = proposedBlock st2
          \<and> seenProposals st' = seenProposals st2
          \<and> (addr \<notin> set (slashedNodes st2) \<longrightarrow>
                balance (getAccount (accounts st') addr) =
                  dsub (balance (getAccount (accounts st2) addr))
                    (min (balance (getAccount (accounts st2) addr)) slashAmountConfig)
              \<and> nonce (getAccount (accounts st') addr) = nonce (getAccount (accounts st2) addr)
              \<and> (\<forall>a. a \<noteq> addr \<longrightarrow> map_of (accounts st') a = map_of (accounts st2) a)
              \<and> slashEvents st' = slashEvents st2 + 1)
          \<and> (addr \<in> set (slashedNodes st2) \<longrightarrow> st' = st2)
          \<and> addr \<in> set (slashedNodes st')
          \<and> (\<forall>pem k'. parseKey env pem = Some k' \<and> take 40 (digestHex (sha256 env k')) = addr
                \<longrightarrow> slashNode env st' pem = st')"
    if held2: "held st2 b1" for st2
  proof -
    from held_detects[OF held2 same_epoch same_leader differ]
    obtain ps and hb :: "string \<times> block"
      where ps: "map_of (seenProposals st2) (epoch b2) = Some ps"
        and ce: "checkEquivocation st2 b2 =
          (Some \<lparr>ev_block1 = snd hb, ev_block2 = b2, ev_leader = leader b2, ev_epoch = epoch b2\<rparr>,
           st2)"
        and hb: "hb \<in> set ps" "conflicts b2 hb"
      by blast
    let ?ev = "\<lparr>ev_block1 = snd hb, ev_block2 = b2, ev_leader = leader b2, ev_epoch = epoch b2\<rparr>"
    let ?st' = "slashNode env st2 (leaderPubKey b2)"
    have h: "handleBlockProposal env st2 b2 = (Rejected ''Equivocation detected'' (Some ?ev), ?st')"
      by (simp add: handleBlockProposal_def ce)
    have ev: "ev_block2 ?ev = b2 \<and> ev_leader ?ev = leader b2 \<and> ev_epoch ?ev = epoch b2"
      by simp
    have found: "\<exists>ps h. map_of (seenProposals st2) (epoch b2) = Some ps
                \<and> (h, ev_block1 ?ev) \<in> set ps
                \<and> leader (ev_block1 ?ev) = leader b2 \<and> h \<noteq> bhash b2"
      using hb ps by (intro exI[of _ ps] exI[of _ "fst hb"]) (simp add: conflicts_def)
    have pb: "proposedBlock ?st' = proposedBlock st2"
      using addr by (cases "addr \<in> set (slashedNodes st2)")
        (simp_all add: slashNode_again slashNode_fresh(6))
    have sp: "seenProposals ?st' = seenProposals st2"
      by (rule slashNode_seenProposals)
    have fresh: "addr \<notin> set (slashedNodes st2) \<longrightarrow>
                balance (getAccount (accounts ?st') addr) =
                  dsub (balance (getAccount (accounts st2) addr))
                    (min (balance (getAccount (accounts st2) addr)) slashAmountConfig)
              \<and> nonce (getAccount (accounts ?st') addr) = nonce (getAccount (accounts st2) addr)
              \<and> (\<forall>a. a \<noteq> addr \<longrightarrow> map_of (accounts ?st') a = map_of (accounts st2) a)
              \<and> slashEvents ?st' = slashEvents st2 + 1"
      using slashNode_fresh[OF addr, of st2] by blast
    have again: "addr \<in> set (slashedNodes st2) \<longrightarrow> ?st' = st2"
      using slashNode_again[OF addr] by blast
    have marked: "addr \<in> set (slashedNodes ?st')"
      using addr by (cases "addr \<in> set (slashedNodes st2)")
        (simp_all add: slashNode_again slashNode_fresh(2))
    have once: "\<forall>pem k'. parseKey env pem = Some k' \<and> take 40 (digestHex (sha256 env k')) = addr
                \<longrightarrow> slashNode env ?st' pem = ?st'"
    proof (intro allI impI)
      fix pem k'
      assume "parseKey env pem = Some k' \<and> take 40 (digestHex (sha256 env k')) = addr"
      then have "addressOfKey env pem = Some addr"
        by (auto simp: addressOfKey_explicit)
      from slashNode_again[OF this marked] show "slashNode env ?st' pem = ?st'" .
    qed
    show ?thesis
      apply (intro exI[of _ ?ev] exI[of _ ?st'] conjI)
      using h ev found pb sp fresh again marked once by blast+
  qed
  have "\<forall>st2. held st2 b1 \<longrightarrow>
         (\<exists>k addr ev st'.
            parseKey env (leaderPubKey b2) = Some k
          \<and> addr = take 40 (digestHex (sha256 env k))
          \<and> handleBlockProposal env st2 b2 = (Rejected ''Equivocation detected'' (Some ev), st')
          \<and> ev_block2 ev = b2 \<and> ev_leader ev = leader b2 \<and> ev_epoch ev = epoch b2
          \<and> (\<exists>ps h. map_of (seenProposals st2) (epoch b2) = Some ps
                \<and> (h, ev_block1 ev) \<in> set ps
                \<and> leader (ev_block1 ev) = leader b2 \<and> h \<noteq> bhash b2)
          \<and> proposedBlock st' = proposedBlock st2
          \<and> seenProposals st' = seenProposals st2
          \<and> (addr \<notin> set (slashedNodes st2) \<longrightarrow>
                balance (getAccount (accounts st') addr) =
                  dsub (balance (getAccount (accounts st2) addr))
                    (min (balance (getAccount (accounts st2) addr)) slashAmountConfig)
              \<and> nonce (getAccount (accounts st') addr) = nonce (getAccount (accounts st2) addr)
              \<and> (\<forall>a. a \<noteq> addr \<longrightarrow> map_of (accounts st') a = map_of (accounts st2) a)
              \<and> slashEvents st' = slashEvents st2 + 1)
          \<and> (addr \<in> set (slashedNodes st2) \<longrightarrow> st' = st2)
          \<and> addr \<in> set (slashedNodes st')
          \<and> (\<forall>pem k'. parseKey env pem = Some k' \<and> take 40 (digestHex (sha256 env k')) = addr
                \<longrightarrow> slashNode env st' pem = st'))"
  proof (intro allI impI)
    fix st2
    assume "held st2 b1"
    from later[OF this] k addr_k show "\<exists>k addr ev st'.
            parseKey env (leaderPubKey b2) = Some k
          \<and> addr = take 40 (digestHex (sha256 env k))
          \<and> handleBlockProposal env st2 b2 = (Rejected ''Equivocation detected'' (Some ev), st')
          \<and> ev_block2 ev = b2 \<and> ev_leader ev = leader b2 \<and> ev_epoch ev = epoch b2
          \<and> (\<exists>ps h. map_of (seenProposals st2) (epoch b2) = Some ps
                \<and> (h, ev_block1 ev) \<in> set ps
                \<and> leader (ev_block1 ev) = leader b2 \<and> h \<noteq> bhash b2)
          \<and> proposedBlock st' = proposedBlock st2
          \<and> seenProposals st' = seenProposals st2
          \<and> (addr \<notin> set (slashedNodes st2) \<longrightarrow>
                balance (getAccount (accounts st') addr) =
                  dsub (balance (getAccount (accounts st2) addr))
                    (min (balance (getAccount (accounts st2) addr)) slashAmountConfig)
              \<and> nonce (getAccount (accounts st') addr) = nonce (getAccount (accounts st2) addr)
              \<and> (\<forall>a. a \<noteq> addr \<longrightarrow> map_of (accounts st') a = map_of (accounts st2) a)
              \<and> slashEvents st' = slashEvents st2 + 1)
          \<and> (addr \<in> set (slashedNodes st2) \<longrightarrow> st' = st2)
          \<and> addr \<in> set (slashedNodes st')
          \<and> (\<forall>pem k'. parseKey env pem = Some k' \<and> take 40 (digestHex (sha256 env k')) = addr
                \<longrightarrow> slashNode env st' pem = st')"
      by (intro exI[of _ k] exI[of _ addr]) simp
  qed
  with filed show ?thesis
    by (simp add: slashAmountConfig_def)
qed

theorem equivocation_slashed_once_witness:
  "held observerState (equivocatingBlock ''aaaa'')
   \<and> fst (handleBlockProposal (nodeEnv ''n1'') observerState (equivocatingBlock ''bbbb''))
     = Rejected ''Equivocation detected''
         (Some \<lparr>ev_block1 = equivocatingBlock ''aaaa'', ev_block2 = equivocatingBlock ''bbbb'',
                ev_leader = ''n2'', ev_epoch = 5\<rparr>)
   \<and> balance (getAccount (accounts observerState) n2Address) = 800
   \<and> balance (getAccount (accounts (snd (handleBlockProposal (nodeEnv ''n1'') observerState
         (equivocatingBlock ''bbbb'')))) n2Address) = 300
   \<and> slashEvents (snd (handleBlockProposal (nodeEnv ''n1'') observerState
         (equivocatingBlock ''bbbb''))) = 1"
proof -
  let ?env = "nodeEnv ''n1''"
  let ?b1 = "equivocatingBlock ''aaaa''" and ?b2 = "equivocatingBlock ''bbbb''"
  have first: "fst (checkEquivocation observerBase ?b1) = None"
    by (simp add: checkEquivocation_def observerBase_fields Let_def)
  have window: "length (seenProposals observerBase) < 10
      \<or> (epoch ?b1 \<in> fst ` set (seenProposals observerBase)
           \<and> length (seenProposals observerBase) \<le> 10)
      \<or> (\<exists>e \<in> fst ` set (seenProposals observerBase). e < epoch ?b1)"
    by (simp add: observerBase_fields)
  have same_epoch: "epoch ?b2 = epoch ?b1" and same_leader: "leader ?b2 = leader ?b1"
    and differ: "bhash ?b2 \<noteq> bhash ?b1"
    by (simp_all add: equivocatingBlock_def)
  have signed: "verify ?env (bhash ?b2) (leaderSignature ?b2) (leaderPubKey ?b2)"
    by (simp add: verify_def equivocatingBlock_def nodeEnv_def toyParseKey_def toyVerify_def)
  note t = equivocation_slashed_once[OF first window same_epoch same_leader differ signed]
  from t have filed: "held observerState ?b1"
    unfolding observerState_def by (rule conjunct1)
  from t filed obtain k addr ev st' where
    k: "parseKey ?env (leaderPubKey ?b2) = Some k"
    and a: "addr = take 40 (digestHex (sha256 ?env k))"
    and h: "handleBlockProposal ?env observerState ?b2 = (Rejected ''Equivocation detected'' (Some ev), st')"
    and fresh: "addr \<notin> set (slashedNodes observerState) \<longrightarrow>
          balance (getAccount (accounts st') addr) =
            dsub (balance (getAccount (accounts observerState) addr))
              (min (balance (getAccount (accounts observerState) addr)) slashAmountConfig)
        \<and> nonce (getAccount (accounts st') addr) = nonce (getAccount (accounts observerState) addr)
        \<and> (\<forall>a. a \<noteq> addr \<longrightarrow> map_of (accounts st') a = map_of (accounts observerState) a)
        \<and> slashEvents st' = slashEvents observerState + 1"
    by blast
  from k have "k = ''n2''"
    by (simp add: equivocatingBlock_def nodeEnv_def toyParseKey_def)
  with a have addr: "addr = n2Address"
    by (simp add: n2Address_def hash_def)
  have ev: "fst (handleBlockProposal ?env observerState ?b2)
     = Rejected ''Equivocation detected''
         (Some \<lparr>ev_block1 = equivocatingBlock ''aaaa'', ev_block2 = ?b2,
                ev_leader = ''n2'', ev_epoch = 5\<rparr>)"
    by (simp add: handleBlockProposal_def checkEquivocation_def observerState_fields Let_def
        conflicts_def equivocatingBlock_def)
  from fresh addr h ev filed show ?thesis
    by (simp add: observerState_fields getAccount_def slashAmountConfig_def double_simps)
qed

subsection \<open>Transaction filter\<close>

text \<open>
  Claim C5, as stated, ends with: of two transactions with the same sender and nonce the
  later one is rejected. That fails when the earlier one was itself rejected: with a
  balance of 100, a transfer of 600 with nonce 1 is rejected for lack of funds and a
  later transfer of 50 with the same sender and nonce is accepted. It fails for
  coinbase transactions, which are accepted whatever their nonce is: two of them with
  one nonce are both kept. And it fails where the nonce arithmetic is no longer exact:
  \<^verbatim>\<open>currentNonce + 1\<close> is a double, so with a ledger nonce of \<open>2 ^ 53 - 1\<close> a
  transfer with nonce \<open>2 ^ 53\<close> is accepted, and then a second transfer with the
  same nonce \<open>2 ^ 53\<close> is accepted as well, because \<open>2 ^ 53 + 1\<close> rounds to
  \<open>2 ^ 53\<close>.
\<close>

theorem later_duplicate_accepted:
  "tx_from (aliceTx ''bob'' 600 1) = tx_from (aliceTx ''carol'' 50 1)
   \<and> tx_nonce (aliceTx ''bob'' 600 1) = tx_nonce (aliceTx ''carol'' 50 1)
   \<and> validTxsOf (filterTransactions (aliceAccounts 100)
        [aliceTx ''bob'' 600 1, aliceTx ''carol'' 50 1]) = [aliceTx ''carol'' 50 1]
   \<and> tx_from coinbaseTx = tx_from (coinbaseTx\<lparr>tx_to := ''addr-n2''\<rparr>)
   \<and> tx_nonce coinbaseTx = tx_nonce (coinbaseTx\<lparr>tx_to := ''addr-n2''\<rparr>)
   \<and> validTxsOf (filterTransactions (aliceAccounts 100)
        [coinbaseTx, coinbaseTx\<lparr>tx_to := ''addr-n2''\<rparr>])
       = [coinbaseTx, coinbaseTx\<lparr>tx_to := ''addr-n2''\<rparr>]
   \<and> tx_from (aliceTx ''bob'' 10 9007199254740992)
       = tx_from (aliceTx ''carol'' 10 9007199254740992)
   \<and> tx_nonce (aliceTx ''bob'' 10 9007199254740992)
       = tx_nonce (aliceTx ''carol'' 10 9007199254740992)
   \<and> validTxsOf (filterTransactions veteranAccounts
        [aliceTx ''bob'' 10 9007199254740992, aliceTx ''carol'' 10 9007199254740992])
       = [aliceTx ''bob'' 10 9007199254740992, aliceTx ''carol'' 10 9007199254740992]"
proof -
  have tie: "roundDouble 9007199254740993 = 9007199254740992"
    using roundDouble_tie by simp
  show ?thesis
    by (simp add: filterTransactions_def filterStep_def aliceAccounts_def aliceTx_def Let_def
        overlayBalance_def overlayNonce_def getAccount_def emptyAccount_def validTxsOf_def
        coinbaseTx_def veteranAccounts_def double_simps tie)
qed

text \<open>
  Claim C5, amended in its arithmetic and in its last clause. The transactions of a
  block that \<open>createBlock\<close> builds are the accepted list of \<open>filterTransactions\<close>
  on the ledger accounts. The filter is one pass in
  input order (\<open>filterTransactions\<close> on \<open>xs @ [tx]\<close> is one \<open>filterStep\<close> after
  \<open>filterTransactions\<close> on \<open>xs\<close>), starting from empty overlays, which read the
  ledger account map. A coinbase transaction is always kept and credits the
  recipient's overlay balance, leaving the nonces alone. Any other transaction is
  rejected, changing nothing, if the sender's overlay balance is less than the amount
  or its nonce is not the sender's overlay nonce plus 1; otherwise it is kept, the
  sender is debited, the sender's nonce becomes the transaction's nonce and the
  recipient is credited. Sums and differences are those of double arithmetic (\<open>dadd\<close>,
  \<open>dsub\<close>: the exact result rounded to the nearest double). The accepted list is a
  subsequence of the input. Of two transactions with the same sender (not coinbase)
  and the same nonce, of absolute value below \<open>2 ^ 53\<close>, the later one is rejected
  whenever the earlier one was accepted.
\<close>

theorem filterTransactions_single_pass:
  "transactions (createBlock env st now ep rcpts txs)
     = validTxsOf (filterTransactions (accounts st) txs)
   \<and> overlayBalance accts [] a = balance (getAccount accts a)
   \<and> overlayNonce accts [] a = nonce (getAccount accts a)
   \<and> filterTransactions accts [] = ([], [], [])
   \<and> filterTransactions accts (xs @ [tx]) = filterStep accts (filterTransactions accts xs) tx
   \<and> (tx_from tx = ''coinbase'' \<longrightarrow>
         validTxsOf (filterStep accts (v, tb, tn) tx) = v @ [tx]
       \<and> overlayBalance accts (balancesOf (filterStep accts (v, tb, tn) tx)) =
           (overlayBalance accts tb)
             (tx_to tx := roundDouble (overlayBalance accts tb (tx_to tx) + amount tx))
       \<and> noncesOf (filterStep accts (v, tb, tn) tx) = tn)
   \<and> (rejects accts tb tn tx \<longleftrightarrow>
         overlayBalance accts tb (tx_from tx) < amount tx
       \<or> tx_nonce tx \<noteq> roundDouble (overlayNonce accts tn (tx_from tx) + 1))
   \<and> (tx_from tx \<noteq> ''coinbase'' \<and> rejects accts tb tn tx \<longrightarrow>
         filterStep accts (v, tb, tn) tx = (v, tb, tn))
   \<and> (tx_from tx \<noteq> ''coinbase'' \<and> \<not> rejects accts tb tn tx \<longrightarrow>
         validTxsOf (filterStep accts (v, tb, tn) tx) = v @ [tx]
       \<and> overlayNonce accts (noncesOf (filterStep accts (v, tb, tn) tx)) =
           (overlayNonce accts tn)(tx_from tx := tx_nonce tx)
       \<and> overlayBalance accts (balancesOf (filterStep accts (v, tb, tn) tx)) =
           (let debited = (overlayBalance accts tb)
                  (tx_from tx := roundDouble (overlayBalance accts tb (tx_from tx) - amount tx))
            in debited(tx_to tx := roundDouble (debited (tx_to tx) + amount tx))))
   \<and> subseq (validTxsOf (filterTransactions accts txs)) txs
   \<and> (tx_from t2 = tx_from t1 \<and> tx_from t1 \<noteq> ''coinbase'' \<and> tx_nonce t2 = tx_nonce t1
        \<and> \<bar>tx_nonce t1\<bar> < 2 ^ 53
        \<and> validTxsOf (filterTransactions accts (pre @ [t1]))
            = validTxsOf (filterTransactions accts pre) @ [t1] \<longrightarrow>
         filterTransactions accts (pre @ [t1] @ mid @ [t2])
           = filterTransactions accts (pre @ [t1] @ mid))"
proof -
  have built: "transactions (createBlock env st now ep rcpts txs)
     = validTxsOf (filterTransactions (accounts st) txs)"
    by (simp add: createBlock_fields validTxsOf_def)
  have seed_balance: "overlayBalance accts [] a = balance (getAccount accts a)"
    by (simp add: overlayBalance_def)
  have seed_nonce: "overlayNonce accts [] a = nonce (getAccount accts a)"
    by (simp add: overlayNonce_def)
  have start: "filterTransactions accts [] = ([], [], [])"
    by (simp add: filterTransactions_def)
  have pass: "filterTransactions accts (xs @ [tx]) = filterStep accts (filterTransactions accts xs) tx"
    by (simp add: filterTransactions_def)
  have coinbase: "tx_from tx = ''coinbase'' \<longrightarrow>
         validTxsOf (filterStep accts (v, tb, tn) tx) = v @ [tx]
       \<and> overlayBalance accts (balancesOf (filterStep accts (v, tb, tn) tx)) =
           (overlayBalance accts tb)
             (tx_to tx := roundDouble (overlayBalance accts tb (tx_to tx) + amount tx))
       \<and> noncesOf (filterStep accts (v, tb, tn) tx) = tn"
    by (simp add: filterStep_coinbase validTxsOf_def balancesOf_def noncesOf_def
        overlayBalance_update dadd_def)
  have test: "rejects accts tb tn tx \<longleftrightarrow>
         overlayBalance accts tb (tx_from tx) < amount tx
       \<or> tx_nonce tx \<noteq> roundDouble (overlayNonce accts tn (tx_from tx) + 1)"
    by (simp add: rejects_def dadd_def)
  have rejected: "tx_from tx \<noteq> ''coinbase'' \<and> rejects accts tb tn tx \<longrightarrow>
         filterStep accts (v, tb, tn) tx = (v, tb, tn)"
    by (simp add: filterStep_rejected)
  have accepted: "tx_from tx \<noteq> ''coinbase'' \<and> \<not> rejects accts tb tn tx \<longrightarrow>
         validTxsOf (filterStep accts (v, tb, tn) tx) = v @ [tx]
       \<and> overlayNonce accts (noncesOf (filterStep accts (v, tb, tn) tx)) =
           (overlayNonce accts tn)(tx_from tx := tx_nonce tx)
       \<and> overlayBalance accts (balancesOf (filterStep accts (v, tb, tn) tx)) =
           (let debited = (overlayBalance accts tb)
                  (tx_from tx := roundDouble (overlayBalance accts tb (tx_from tx) - amount tx))
            in debited(tx_to tx := roundDouble (debited (tx_to tx) + amount tx)))"
    by (simp add: filterStep_accepted validTxsOf_def balancesOf_def noncesOf_def
        overlayBalance_update overlayNonce_update Let_def dadd_def dsub_def)
  have order: "subseq (validTxsOf (filterTransactions accts txs)) txs"
    by (rule subseq_filterTransactions)
  have duplicate: "tx_from t2 = tx_from t1 \<and> tx_from t1 \<noteq> ''coinbase'' \<and> tx_nonce t2 = tx_nonce t1
        \<and> \<bar>tx_nonce t1\<bar> < 2 ^ 53
        \<and> validTxsOf (filterTransactions accts (pre @ [t1]))
            = validTxsOf (filterTransactions accts pre) @ [t1] \<longrightarrow>
         filterTransactions accts (pre @ [t1] @ mid @ [t2])
           = filterTransactions accts (pre @ [t1] @ mid)"
    using duplicate_rejected[of t2 t1 accts pre mid] by blast
  show ?thesis
    by (intro conjI)
       (rule built seed_balance seed_nonce start pass coinbase test rejected accepted order
          duplicate)+
qed

theorem filterTransactions_single_pass_witness:
  "filterTransactions (aliceAccounts 1000) [aliceTx ''bob'' 600 1, aliceTx ''carol'' 600 1]
     = filterTransactions (aliceAccounts 1000) [aliceTx ''bob'' 600 1]
   \<and> validTxsOf (filterTransactions (aliceAccounts 1000)
        [aliceTx ''bob'' 600 1, aliceTx ''carol'' 600 1]) = [aliceTx ''bob'' 600 1]
   \<and> filterStep (aliceAccounts 1000) ([], [], []) (aliceTx ''bob'' 2000 1) = ([], [], [])
   \<and> validTxsOf (filterStep (aliceAccounts 1000) ([], [], []) coinbaseTx) = [coinbaseTx]"
proof -
  note t = filterTransactions_single_pass[where accts = "aliceAccounts 1000"
      and pre = "[]" and mid = "[]" and ?t1.0 = "aliceTx ''bob'' 600 1"
      and ?t2.0 = "aliceTx ''carol'' 600 1" and v = "[]" and tb = "[]" and tn = "[]"]
  have kept: "validTxsOf (filterTransactions (aliceAccounts 1000) ([] @ [aliceTx ''bob'' 600 1]))
      = validTxsOf (filterTransactions (aliceAccounts 1000) []) @ [aliceTx ''bob'' 600 1]"
  proof -
    have "filterTransactions (aliceAccounts 1000) [] = ([], [], [])"
      by (simp add: filterTransactions_def)
    then show ?thesis
      by (simp add: first_spend_filter validTxsOf_def)
  qed
  have same: "tx_from (aliceTx ''carol'' 600 1) = tx_from (aliceTx ''bob'' 600 1)"
    "tx_from (aliceTx ''bob'' 600 1) \<noteq> ''coinbase''"
    "tx_nonce (aliceTx ''carol'' 600 1) = tx_nonce (aliceTx ''bob'' 600 1)"
    "\<bar>tx_nonce (aliceTx ''bob'' 600 1)\<bar> < 2 ^ 53"
    by (simp_all add: aliceTx_def)
  have rej: "tx_from (aliceTx ''bob'' 2000 1) \<noteq> ''coinbase''
      \<and> rejects (aliceAccounts 1000) [] [] (aliceTx ''bob'' 2000 1)"
    by (simp add: rejects_def aliceTx_def aliceAccounts_def overlayBalance_def getAccount_def)
  have cb: "tx_from coinbaseTx = ''coinbase''"
    by (simp add: coinbaseTx_def)
  from t[where tx = "aliceTx ''bob'' 2000 1"] rej
  have r: "filterStep (aliceAccounts 1000) ([], [], []) (aliceTx ''bob'' 2000 1) = ([], [], [])"
    by blast
  from t[where tx = coinbaseTx] cb
  have c: "validTxsOf (filterStep (aliceAccounts 1000) ([], [], []) coinbaseTx) = [] @ [coinbaseTx]"
    by blast
  from t[where tx = coinbaseTx] kept same
  have d: "filterTransactions (aliceAccounts 1000)
        ([] @ [aliceTx ''bob'' 600 1] @ [] @ [aliceTx ''carol'' 600 1])
      = filterTransactions (aliceAccounts 1000) ([] @ [aliceTx ''bob'' 600 1] @ [])"
    by blast
  from r c d show ?thesis
    by (simp add: first_spend_filter validTxsOf_def)
qed

subsection \<open>View change\<close>

text \<open>
  Claim C10. \<open>handleViewChange\<close> does not read the signature of a view-change
  message: two messages that agree on epoch, old view, new view and sender lead to the
  same state, whatever their signatures are (also when one is missing). For a message
  of the current epoch with a higher view, the tally under the key of (epoch, new view)
  becomes the old tally with the sender's name added as a set element, so it counts
  distinct sender names; and when that tally reaches \<open>votesNeeded\<close> the current view
  becomes the new view and \<open>viewChanges\<close> grows by one. No signature is verified
  on the way.
\<close>

theorem viewChange_ignores_signature:
  assumes same_epoch: "vc_epoch vc2 = vc_epoch vc1"
    and same_oldView: "vc_oldView vc2 = vc_oldView vc1"
    and same_newView: "vc_newView vc2 = vc_newView vc1"
    and same_from: "vc_from vc2 = vc_from vc1"
  shows "handleViewChange env st vc2 = handleViewChange env st vc1
    \<and> handleViewChange env st (vc1\<lparr>vc_signature := sig\<rparr>) = handleViewChange env st vc1
    \<and> (vc_epoch vc1 = currentEpoch st \<and> currentView st < vc_newView vc1 \<longrightarrow>
          votersOf (viewChangeVotes (handleViewChange env st vc1)) (viewChangeKey vc1)
            = setAdd (vc_from vc1) (votersOf (viewChangeVotes st) (viewChangeKey vc1)))
    \<and> (distinct (votersOf (viewChangeVotes st) (viewChangeKey vc1)) \<longrightarrow>
          distinct (setAdd (vc_from vc1) (votersOf (viewChangeVotes st) (viewChangeKey vc1))))
    \<and> set (setAdd (vc_from vc1) (votersOf (viewChangeVotes st) (viewChangeKey vc1)))
          = insert (vc_from vc1) (set (votersOf (viewChangeVotes st) (viewChangeKey vc1)))
    \<and> (vc_epoch vc1 = currentEpoch st \<and> currentView st < vc_newView vc1
        \<and> votesNeeded st
              \<le> length (setAdd (vc_from vc1) (votersOf (viewChangeVotes st) (viewChangeKey vc1)))
        \<longrightarrow> currentView (handleViewChange env st vc1) = vc_newView vc1
          \<and> viewChanges (handleViewChange env st vc1) = viewChanges st + 1)"
proof -
  have two: "handleViewChange env st vc2 = handleViewChange env st vc1"
    using same_epoch same_newView same_from by (rule handleViewChange_same_fields)
  have upd: "handleViewChange env st (vc1\<lparr>vc_signature := sig\<rparr>) = handleViewChange env st vc1"
    by (rule handleViewChange_same_fields) simp_all
  have tally: "vc_epoch vc1 = currentEpoch st \<and> currentView st < vc_newView vc1 \<longrightarrow>
          votersOf (viewChangeVotes (handleViewChange env st vc1)) (viewChangeKey vc1)
            = setAdd (vc_from vc1) (votersOf (viewChangeVotes st) (viewChangeKey vc1))"
    by (simp add: handleViewChange_tally)
  have dist: "distinct (votersOf (viewChangeVotes st) (viewChangeKey vc1)) \<longrightarrow>
          distinct (setAdd (vc_from vc1) (votersOf (viewChangeVotes st) (viewChangeKey vc1)))"
    by (simp add: distinct_setAdd)
  have elems: "set (setAdd (vc_from vc1) (votersOf (viewChangeVotes st) (viewChangeKey vc1)))
          = insert (vc_from vc1) (set (votersOf (viewChangeVotes st) (viewChangeKey vc1)))"
    by (rule set_setAdd)
  have quorum: "vc_epoch vc1 = currentEpoch st \<and> currentView st < vc_newView vc1
        \<and> votesNeeded st
              \<le> length (setAdd (vc_from vc1) (votersOf (viewChangeVotes st) (viewChangeKey vc1)))
        \<longrightarrow> currentView (handleViewChange env st vc1) = vc_newView vc1
          \<and> viewChanges (handleViewChange env st vc1) = viewChanges st + 1"
    by (simp add: handleViewChange_quorum)
  show ?thesis
    by (intro conjI) (rule two upd tally dist elems quorum)+
qed

theorem viewChange_ignores_signature_witness:
  "handleViewChange (nodeEnv ''n1'') waitingState
       (unsignedViewChange\<lparr>vc_signature := Some ''sig-n4-view''\<rparr>)
     = handleViewChange (nodeEnv ''n1'') waitingState unsignedViewChange
   \<and> currentView waitingState = 0
   \<and> currentView (handleViewChange (nodeEnv ''n1'') waitingState unsignedViewChange) = 1"
proof -
  let ?signed = "unsignedViewChange\<lparr>vc_signature := Some ''sig-n4-view''\<rparr>"
  have same: "vc_epoch ?signed = vc_epoch unsignedViewChange"
    "vc_oldView ?signed = vc_oldView unsignedViewChange"
    "vc_newView ?signed = vc_newView unsignedViewChange"
    "vc_from ?signed = vc_from unsignedViewChange"
    by simp_all
  have guards: "vc_epoch unsignedViewChange = currentEpoch waitingState"
    "currentView waitingState < vc_newView unsignedViewChange"
    by (simp_all add: unsignedViewChange_def waitingState_def stateWithPeers_def initialState_def)
  have enough: "votesNeeded waitingState
      \<le> length (setAdd (vc_from unsignedViewChange)
            (votersOf (viewChangeVotes waitingState) (viewChangeKey unsignedViewChange)))"
    unfolding unsigned_key waiting_quorum waiting_tally by simp
  have v0: "currentView waitingState = 0"
    by (simp add: waitingState_def stateWithPeers_def initialState_def)
  have v1: "vc_newView unsignedViewChange = 1"
    by (simp add: unsignedViewChange_def)
  note t = viewChange_ignores_signature[OF same, where env = "nodeEnv ''n1''"
      and st = waitingState and sig = None]
  from t have eq: "handleViewChange (nodeEnv ''n1'') waitingState ?signed
      = handleViewChange (nodeEnv ''n1'') waitingState unsignedViewChange"
    by (rule conjunct1)
  from t guards enough
  have "currentView (handleViewChange (nodeEnv ''n1'') waitingState unsignedViewChange)
      = vc_newView unsignedViewChange"
    by simp
  with eq v0 v1 show ?thesis
    by simp
qed

subsection \<open>Effectiveness update\<close>

text \<open>
  Claim C8 (the update uses the time step \<^verbatim>\<open>epochDuration / 86400\<close>, that is 1/8640
  of a day for epochs of 10 seconds) fails: \<open>effectivenessStep\<close> uses the constant
  \<^verbatim>\<open>days = 1 / 144\<close>. For a peer of effectiveness 0 with a successful receipt the
  stored value is \<open>1 - exp (- (1 / 144) / 40)\<close>, not \<open>1 - exp (- (1 / 8640) / 40)\<close>.
  The clamping part of the claim holds: every stored value lies between 0 and 1 (lemma
  \<open>effectiveness_updates_unit_interval\<close>). Effectiveness values are real numbers
  here, where the source computes in floating point.
\<close>

theorem effectiveness_ramp_uses_144:
  "calculateEffectivenessUpdates (nodeEnv ''n1'') (stateWithPeers [''n2'']) [successReceipt ''n2'']
     = [(''addr-n1'', 0), (''addr-n2'', 1 - exp (- (1 / 144) / 40))]
   \<and> 1 - exp (- (1 / 144) / 40) \<noteq> 1 - (1 - 0) * exp (- (1 / 8640) / (40::real))"
proof -
  have names: "NODE_NAME (nodeEnv ''n1'') # map fst (peers (stateWithPeers [''n2''])) = [''n1'', ''n2'']"
    by (simp add: nodeEnv_def stateWithPeers_def peerAt_def)
  have "calculateEffectivenessUpdates (nodeEnv ''n1'') (stateWithPeers [''n2'']) [successReceipt ''n2'']
     = [(''addr-n1'', 0), (''addr-n2'', 1 - exp (- (1 / 144) / 40))]"
    unfolding calculateEffectivenessUpdates_def names
    by (simp add: effectivenessStep_def ramp_addresses ramp_currentEff successReceipt_def
        rampConstant_def decayConstant_def)
  moreover have "1 - exp (- (1 / 144) / 40) \<noteq> 1 - (1 - 0) * exp (- (1 / 8640) / (40::real))"
    by simp
  ultimately show ?thesis by blast
qed

end
